(* ===== verification/Prelude.thy ===== *)
theory Prelude
  imports Main "HOL-Library.Word" "HOL-Library.Signed_Division"
begin

text \<open>
  What every component of the development shares: the machine types of the Go source
  (\<open>byte\<close>, \<open>int\<close> and \<open>uint64\<close> at their width), the errors the code returns as
  values, panics as an outcome, Go's \<open>select\<close> as the list of the outcomes it may commit
  to, the decimal notation that the length, attachment and id fields use, and the lemma
  collections that the component proofs call by name.
\<close>

section \<open>Machine types\<close>

type_synonym byte = "8 word"
type_synonym bytes = "byte list"

text \<open>Go's \<open>int\<close> on a 64-bit platform: a 64-bit word that is read with \<open>sint\<close>.\<close>

type_synonym goint = "64 word"
type_synonym uint64 = "64 word"

definition asc :: "string \<Rightarrow> bytes" where
  "asc s = map of_char s"

text \<open>Go's \<open>/\<close> on \<open>int\<close> truncates towards zero.\<close>

definition go_div :: "goint \<Rightarrow> goint \<Rightarrow> goint" where
  "go_div a b = word_of_int (sint a sdiv sint b)"

text \<open>
  \<open>make([]byte, l)\<close> panics for a negative length and for one above the largest
  allocation of the runtime (\<open>2^48\<close> bytes on linux/amd64). A negative \<open>int\<close> is a word
  of at least \<open>2^63\<close>, so one unsigned comparison covers both.
\<close>

definition max_alloc :: nat where
  "max_alloc = 2 ^ 48"

definition makeslice_ok :: "goint \<Rightarrow> bool" where
  "makeslice_ok l \<longleftrightarrow> unat l \<le> max_alloc"

text \<open>The slice \<open>make([]byte, n)\<close> after \<open>copy\<close> of \<open>bs\<close> into its front: the rest stays zero.\<close>

definition filled :: "nat \<Rightarrow> bytes \<Rightarrow> bytes" where
  "filled n bs = take n bs @ replicate (n - length bs) 0"

section \<open>Errors and panics\<close>

datatype goerr =
    EOF
  | ErrUnexpectedEOF
  | ErrShortWrite
  | CorruptInputError
  | ErrInvalidPayload
  | ErrUnknownPacket
  | ErrorNamespaceUnavaialble
  | ErrEmitterClosed
  | ErrPollingConnClosed
  | ErrPollingConnReadTimeout
  | ErrPollingConnWriteTimeout
  | ErrPollingConnPaused
  | ErrPollingRequestCanceled
  | ErrPauseNotSupported
  | ErrPollingOriginNotAllowed
  | JsonError
  | ErrShortBytes
  | Errorf string

text \<open>A call either panics or returns.\<close>

datatype 'a outcome = Panic | Ret 'a

text \<open>Reading an error or a value with the rest of the input, one constructor at a time.\<close>

lemma map_sum_eq_Inr: "map_sum id f x = Inr y \<longleftrightarrow> (\<exists>z. x = Inr z \<and> y = f z)"
  by (cases x) auto

lemma apfst_eq: "apfst f p = (a, b) \<longleftrightarrow> (\<exists>c. p = (c, b) \<and> a = f c)"
  by (cases p) auto

lemma map_outcome_Panic [simp]: "map_outcome f x = Panic \<longleftrightarrow> x = Panic"
  by (cases x) simp_all

lemma map_outcome_Ret: "map_outcome f x = Ret y \<longleftrightarrow> (\<exists>z. x = Ret z \<and> y = f z)"
  by (cases x) auto

lemma Inr_eq_map_sum: "Inr y = map_sum id f x \<longleftrightarrow> (\<exists>z. x = Inr z \<and> y = f z)"
  by (cases x) auto

lemma eq_apfst: "(a, b) = apfst f p \<longleftrightarrow> (\<exists>c. p = (c, b) \<and> a = f c)"
  by (cases p) auto

lemmas read_inv = map_sum_eq_Inr apfst_eq map_outcome_Ret Inr_eq_map_sum eq_apfst

section \<open>Go's select\<close>

text \<open>
  A \<open>select\<close> statement is the list of its cases, each with its readiness. It commits to
  any ready case, so the model returns all ready outcomes; the empty list means that the
  statement blocks. With a \<open>default\<close> case it never blocks.
\<close>

definition go_select :: "(bool \<times> 'a) list \<Rightarrow> 'a list" where
  "go_select cs = map snd (filter fst cs)"

definition go_select_default :: "(bool \<times> 'a) list \<Rightarrow> 'a \<Rightarrow> 'a list" where
  "go_select_default cs d = (if \<exists>c \<in> set cs. fst c then go_select cs else [d])"

section \<open>Decimal notation\<close>

text \<open>The digits of a number, most significant first, as \<open>strconv\<close> writes them.\<close>

fun dec_digits :: "nat \<Rightarrow> nat list" where
  "dec_digits k =
     (if k div 10 = 0 then [k] else dec_digits (k div 10) @ [k mod 10])"

declare dec_digits.simps [simp del]

definition undigits :: "nat \<Rightarrow> nat list \<Rightarrow> nat" where
  "undigits acc ds = foldl (\<lambda>a d. a * 10 + d) acc ds"

definition dec :: "nat \<Rightarrow> bytes" where
  "dec n = map (\<lambda>d. of_nat d + 0x30) (dec_digits n)"

text \<open>\<open>strconv.FormatInt(i, 10)\<close> and \<open>strconv.Itoa\<close>.\<close>

definition FormatInt :: "int \<Rightarrow> bytes" where
  "FormatInt i = (if i < 0 then 0x2D # dec (nat (- i)) else dec (nat i))"

definition is_digit :: "byte \<Rightarrow> bool" where
  "is_digit b \<longleftrightarrow> 0x30 \<le> b \<and> b \<le> 0x39"

section \<open>Lemma collections\<close>

text \<open>
  \<open>go_eval\<close> evaluates literals and unfolds the small language constructs above;
  \<open>codec\<close> holds what a byte codec's decoder does on what its encoder wrote;
  \<open>inv\<close> holds preservation facts of component invariants.
\<close>

named_theorems go_eval
named_theorems codec
named_theorems inv

lemmas [go_eval] = asc_def go_select_def go_select_default_def FormatInt_def

section \<open>Shared lemmas\<close>

lemma go_select_set [simp]: "x \<in> set (go_select cs) \<longleftrightarrow> (True, x) \<in> set cs"
  by (force simp: go_select_def image_iff)

lemma asc_append [simp]: "asc (s @ t) = asc s @ asc t"
  by (simp add: asc_def)

lemma length_filled [simp]: "length (filled n bs) = n"
  by (simp add: filled_def min_def)

lemma filled_exact [simp]: "length bs = n \<Longrightarrow> filled n bs = bs"
  by (simp add: filled_def)

lemma filled_short: "length bs \<le> n \<Longrightarrow> filled n bs = bs @ replicate (n - length bs) 0"
  by (simp add: filled_def)

lemma dec_digits_nonempty [simp]: "dec_digits n \<noteq> []"
  by (subst dec_digits.simps) simp

lemma dec_digits_less: "d \<in> set (dec_digits n) \<Longrightarrow> d < 10"
proof (induction n rule: dec_digits.induct)
  case (1 n)
  then show ?case
    by (subst (asm) (2) dec_digits.simps) (auto split: if_splits)
qed

lemma undigits_append [simp]: "undigits a (xs @ ys) = undigits (undigits a xs) ys"
  by (simp add: undigits_def)

lemma undigits_simps [simp]:
  "undigits a [] = a" "undigits a (d # ds) = undigits (a * 10 + d) ds"
  by (simp_all add: undigits_def)

lemma undigits_dec_digits [simp]: "undigits 0 (dec_digits n) = n"
proof (induction n rule: dec_digits.induct)
  case (1 n)
  then show ?case
    by (subst dec_digits.simps) (auto split: if_splits)
qed

lemma dec_digits_inj: "dec_digits m = dec_digits n \<longleftrightarrow> m = n"
  by (metis undigits_dec_digits)

lemma dec_nonempty [simp]: "dec n \<noteq> []"
  by (simp add: dec_def)

lemma unat_digit_byte: "d < 10 \<Longrightarrow> unat (of_nat d + 0x30 :: byte) = d + 48"
  by (simp add: unat_word_ariths unat_of_nat)

lemma digit_byte [simp]:
  assumes "d < 10"
  shows "of_nat d + 0x30 \<noteq> (0x3A :: byte)" "\<not> of_nat d + 0x30 < (0x30 :: byte)"
    "\<not> 0x39 < (of_nat d + 0x30 :: byte)" "ucast (of_nat d :: byte) = (of_nat d :: 64 word)"
    "of_nat d \<noteq> (0xFF :: byte)" "\<not> 9 < (of_nat d :: byte)"
  using assms unat_digit_byte [OF assms]
  by (auto simp: word_less_nat_alt unat_of_nat word_unat_eq_iff unsigned_of_nat take_bit_nat_eq_self)

lemma is_digit_unat: "is_digit b \<longleftrightarrow> 48 \<le> unat b \<and> unat b \<le> 57"
  by (simp add: is_digit_def word_le_nat_alt)

lemma dec_is_digit: "b \<in> set (dec n) \<Longrightarrow> is_digit b"
  by (auto simp: dec_def is_digit_unat unat_digit_byte dest!: dec_digits_less)

lemma is_digit_neq:
  "is_digit b \<Longrightarrow> b \<noteq> 0x3A" "is_digit b \<Longrightarrow> b \<noteq> 0x2D" "is_digit b \<Longrightarrow> b \<noteq> 0x2F"
  "is_digit b \<Longrightarrow> b \<noteq> 0x5B" "is_digit b \<Longrightarrow> b \<noteq> 0x2C"
  by (auto simp: is_digit_def)

lemma makeslice_ok_of_nat:
  "n \<le> max_alloc \<Longrightarrow> makeslice_ok (of_nat n)"
  by (simp add: makeslice_ok_def max_alloc_def unat_of_nat)

lemma unat_of_nat_goint: "n \<le> max_alloc \<Longrightarrow> unat (of_nat n :: goint) = n"
  by (simp add: max_alloc_def unat_of_nat)

lemma of_nat_goint_0 [simp]: "n \<le> max_alloc \<Longrightarrow> (of_nat n :: goint) = 0 \<longleftrightarrow> n = 0"
  by (auto dest: arg_cong [of _ _ unat] simp: unat_of_nat_goint)

lemma makeslice_ok_0 [simp]: "makeslice_ok 0"
  by (simp add: makeslice_ok_def)

lemma makeslice_negative [simp]: "\<not> makeslice_ok (- 1)"
  by (simp add: makeslice_ok_def max_alloc_def unsigned_minus_1_eq_mask mask_eq_exp_minus_1)

lemma sint_of_nat_goint: "n \<le> 2 ^ 50 \<Longrightarrow> sint (of_nat n :: goint) = int n"
proof -
  assume "n \<le> 2 ^ 50"
  then have "uint (of_nat n :: goint) = int n"
    by (simp add: uint_nat unat_of_nat)
  with \<open>n \<le> 2 ^ 50\<close> show ?thesis
    by (simp add: sint_uint signed_take_bit_int_eq_self)
qed

end
