(* ===== verification/Engine_Protocol.thy ===== *)
theory Engine_Protocol
  imports Prelude
begin

text \<open>
  The constants of \<open>engine/protocol.go\<close> and the event names of \<open>engine/handle.go\<close>.
  Packet and message types are bytes in the source (\<open>type PacketType byte\<close>), and the
  decoders convert any byte into them, so they are bytes here too.
\<close>

section \<open>Packet types\<close>

abbreviation (input) PacketTypeOpen :: byte where "PacketTypeOpen \<equiv> 0"
abbreviation (input) PacketTypeClose :: byte where "PacketTypeClose \<equiv> 1"
abbreviation (input) PacketTypePing :: byte where "PacketTypePing \<equiv> 2"
abbreviation (input) PacketTypePong :: byte where "PacketTypePong \<equiv> 3"
abbreviation (input) PacketTypeMessage :: byte where "PacketTypeMessage \<equiv> 4"
abbreviation (input) PacketTypeUpgrade :: byte where "PacketTypeUpgrade \<equiv> 5"
abbreviation (input) PacketTypeNoop :: byte where "PacketTypeNoop \<equiv> 6"

definition PacketType_String :: "byte \<Rightarrow> string" where
  "PacketType_String p =
     (if p = PacketTypeOpen then ''open''
      else if p = PacketTypeClose then ''close''
      else if p = PacketTypePing then ''ping''
      else if p = PacketTypePong then ''pong''
      else if p = PacketTypeMessage then ''message''
      else if p = PacketTypeUpgrade then ''upgrade''
      else if p = PacketTypeNoop then ''noop''
      else ''invalid'')"

section \<open>Message types\<close>

abbreviation (input) MessageTypeString :: byte where "MessageTypeString \<equiv> 0"
abbreviation (input) MessageTypeBinary :: byte where "MessageTypeBinary \<equiv> 1"

definition MessageType_String :: "byte \<Rightarrow> string" where
  "MessageType_String m =
     (if m = MessageTypeString then ''string''
      else if m = MessageTypeBinary then ''binary''
      else ''invalid'')"

section \<open>Parameters and events\<close>

record Parameters =
  SID :: bytes
  Upgrades :: "bytes list"
  PingInterval :: goint
  PingTimeout :: goint

datatype event =
    EventOpen | EventMessage | EventClose | EventError | EventUpgrade | EventPing | EventPong

end
