(* ===== verification/Go_IO.thy ===== *)
theory Go_IO
  imports Prelude
begin

text \<open>
  Byte streams of the Go library as the payload codec uses them. A reader is the list of
  segments in which its bytes arrive: \<open>ReadByte\<close> takes the next byte of the stream,
  while one \<open>Read\<close> call delivers bytes of a single segment only, so that it may return
  fewer bytes than were asked for (\<open>bytes.Reader\<close> is the one-segment case,
  \<open>bufio.Reader\<close> over a network body has one segment per fill of its buffer). A writer
  records what was written and may have a bounded capacity, after which it fails with a
  short write.
\<close>

section \<open>Readers\<close>

type_synonym reader = "bytes list"

fun ReadByte :: "reader \<Rightarrow> (goerr + byte) \<times> reader" where
  "ReadByte [] = (Inl EOF, [])"
| "ReadByte ([] # r) = ReadByte r"
| "ReadByte ((b # bs) # r) = (Inr b, bs # r)"

text \<open>\<open>Read\<close> into a slice of \<open>n\<close> bytes: the bytes delivered, the error, the rest.\<close>

fun Read :: "nat \<Rightarrow> reader \<Rightarrow> bytes \<times> goerr option \<times> reader" where
  "Read n [] = ([], Some EOF, [])"
| "Read n ([] # r) = Read n r"
| "Read n ((b # bs) # r) = (take n (b # bs), None, drop n (b # bs) # r)"

text \<open>The bytes that are still to come.\<close>

definition rsize :: "reader \<Rightarrow> nat" where
  "rsize r = length (concat r)"

section \<open>Writers\<close>

record writer =
  written :: bytes
  room :: "nat option"

definition Write :: "bytes \<Rightarrow> writer \<Rightarrow> nat \<times> goerr option \<times> writer" where
  "Write p w =
     (case room w of
        None \<Rightarrow> (length p, None, w\<lparr>written := written w @ p\<rparr>)
      | Some k \<Rightarrow>
          (min k (length p),
           if k < length p then Some ErrShortWrite else None,
           w\<lparr>written := written w @ take k p, room := Some (k - length p)\<rparr>))"

text \<open>A \<open>bytes.Buffer\<close>: it never fails.\<close>

definition new_buffer :: writer where
  "new_buffer = \<lparr>written = [], room = None\<rparr>"

section \<open>Lemmas\<close>

lemma ReadByte_Inr:
  "ReadByte r = (Inr b, r') \<Longrightarrow> concat r = b # concat r'"
  by (induction r rule: ReadByte.induct) auto

lemma ReadByte_Inl:
  "ReadByte r = (Inl e, r') \<Longrightarrow> e = EOF \<and> concat r = [] \<and> r' = []"
  by (induction r rule: ReadByte.induct) auto

lemma ReadByte_rsize: "ReadByte r = (Inr b, r') \<Longrightarrow> rsize r' < rsize r"
  by (drule ReadByte_Inr) (simp add: rsize_def)

lemma ReadByte_single [simp]:
  "ReadByte [b # bs] = (Inr b, [bs])" "ReadByte [[]] = (Inl EOF, [])"
  by simp_all

lemma Read_None:
  "Read n r = (bs, None, r') \<Longrightarrow> concat r = bs @ concat r' \<and> length bs \<le> n \<and> (0 < n \<longrightarrow> bs \<noteq> [])"
  by (induction n r rule: Read.induct) auto

lemma Read_Some:
  "Read n r = (bs, Some e, r') \<Longrightarrow> e = EOF \<and> bs = [] \<and> concat r = [] \<and> r' = []"
  by (induction n r rule: Read.induct) auto

lemma Read_rsize_le: "Read n r = (bs, err, r') \<Longrightarrow> rsize r' \<le> rsize r"
  by (cases err) (auto simp: rsize_def dest: Read_None Read_Some)

lemma Read_rsize_less: "Read n r = (bs, None, r') \<Longrightarrow> 0 < n \<Longrightarrow> rsize r' < rsize r"
  by (drule Read_None) (auto simp: rsize_def)

lemma Read_consumes: "Read n r = (bs, err, r') \<Longrightarrow> bs \<noteq> [] \<Longrightarrow> rsize r' < rsize r"
  by (cases err) (auto simp: rsize_def dest: Read_None Read_Some)

lemma Read_single: "s \<noteq> [] \<Longrightarrow> Read n [s] = (take n s, None, [drop n s])"
  by (cases s) auto

lemma Write_buffer [simp]:
  "room w = None \<Longrightarrow> Write p w = (length p, None, w\<lparr>written := written w @ p\<rparr>)"
  by (simp add: Write_def)

lemma new_buffer_simps [simp]: "room new_buffer = None" "written new_buffer = []"
  by (simp_all add: new_buffer_def)

text \<open>Every \<open>Write\<close> reports how many bytes it appended, also when it fails.\<close>

lemma Write_count:
  "Write p w = (n, err, w') \<Longrightarrow>
   n \<le> length p \<and> written w' = written w @ take n p \<and> (err = None \<longleftrightarrow> n = length p)"
  by (auto simp: Write_def min_def split: option.splits if_splits)

end
