(* ===== verification/Go_Base64.thy ===== *)
theory Go_Base64
  imports Go_IO
begin

text \<open>
  \<open>encoding/base64\<close> with \<open>StdEncoding\<close>, as \<open>engine/payload.go\<close> uses it: the encoder,
  the length functions, and the first \<open>Read\<close> of a fresh \<open>NewDecoder\<close>, which strips
  line breaks, buffers at most 1024 encoded bytes and decodes whole quanta. The round
  trip of encoder and decoder is the base of the payload codec's lemmas.
\<close>

section \<open>The alphabet\<close>

text \<open>\<open>A-Z\<close>, \<open>a-z\<close>, \<open>0-9\<close>, \<open>+\<close>, \<open>/\<close>.\<close>

definition b64_char :: "nat \<Rightarrow> byte" where
  "b64_char i =
     (if i < 26 then of_nat (i + 65)
      else if i < 52 then of_nat (i + 71)
      else if i < 62 then of_nat (i - 4)
      else if i = 62 then 0x2B
      else 0x2F)"

text \<open>The decode map: \<open>None\<close> for the bytes outside the alphabet.\<close>

definition b64_val :: "byte \<Rightarrow> nat option" where
  "b64_val b =
     (let c = unat b in
      if 65 \<le> c \<and> c \<le> 90 then Some (c - 65)
      else if 97 \<le> c \<and> c \<le> 122 then Some (c - 71)
      else if 48 \<le> c \<and> c \<le> 57 then Some (c + 4)
      else if c = 43 then Some 62
      else if c = 47 then Some 63
      else None)"

section \<open>Encoding\<close>

definition EncodedLen :: "goint \<Rightarrow> goint" where
  "EncodedLen n = go_div (n + 2) 3 * 4"

definition DecodedLen :: "goint \<Rightarrow> goint" where
  "DecodedLen n = go_div n 4 * 3"

fun b64_encode :: "bytes \<Rightarrow> bytes" where
  "b64_encode [] = []"
| "b64_encode [a] =
     (let x = unat a in [b64_char (x div 4), b64_char (x mod 4 * 16), 0x3D, 0x3D])"
| "b64_encode [a, b] =
     (let x = unat a; y = unat b in
      [b64_char (x div 4), b64_char (x mod 4 * 16 + y div 16), b64_char (y mod 16 * 4), 0x3D])"
| "b64_encode (a # b # c # r) =
     (let x = unat a; y = unat b; z = unat c in
      b64_char (x div 4) # b64_char (x mod 4 * 16 + y div 16)
      # b64_char (y mod 16 * 4 + z div 64) # b64_char (z mod 64) # b64_encode r)"

section \<open>Decoding\<close>

text \<open>
  One quantum of four characters after the other. The second component says whether
  decoding stopped with \<open>CorruptInputError\<close>; bytes decoded before the error are kept,
  and a padded quantum is decoded even when input follows it.
\<close>

fun b64_decode :: "bytes \<Rightarrow> bytes \<times> bool" where
  "b64_decode [] = ([], False)"
| "b64_decode (a # b # c # d # r) =
     (case (b64_val a, b64_val b) of
        (Some x, Some y) \<Rightarrow>
          (case (b64_val c, b64_val d) of
             (Some z, Some u) \<Rightarrow>
               (let (out, bad) = b64_decode r in
                (of_nat (x * 4 + y div 16) # of_nat (y mod 16 * 16 + z div 4)
                 # of_nat (z mod 4 * 64 + u) # out, bad))
           | (Some z, None) \<Rightarrow>
               if d = 0x3D
               then ([of_nat (x * 4 + y div 16), of_nat (y mod 16 * 16 + z div 4)], r \<noteq> [])
               else ([], True)
           | (None, _) \<Rightarrow>
               if c = 0x3D \<and> d = 0x3D then ([of_nat (x * 4 + y div 16)], r \<noteq> [])
               else ([], True))
      | _ \<Rightarrow> ([], True))"
| "b64_decode _ = ([], True)"

section \<open>The first Read of a fresh decoder\<close>

text \<open>The line-break filter between the decoder and its source reads until it has a byte.\<close>

function nl_read :: "nat \<Rightarrow> reader \<Rightarrow> bytes \<times> goerr option \<times> reader" where
  "nl_read k r =
     (case Read k r of
        (bs, err, r') \<Rightarrow>
          if bs = [] then ([], err, r')
          else let q = filter (\<lambda>b. b \<noteq> 0x0D \<and> b \<noteq> 0x0A) bs
               in if q \<noteq> [] then (q, err, r') else nl_read k r')"
  by pat_completeness auto
termination
  by (relation "measure (\<lambda>(k, r). rsize r)")
     (auto dest!: sym [of _ "Read _ _"] Read_consumes)

declare nl_read.simps [simp del]

text \<open>How much of the source one refill asks for, given a target of \<open>len\<close> bytes.\<close>

definition b64_want :: "nat \<Rightarrow> nat" where
  "b64_want len = min 1024 (max 4 (len div 3 * 4))"

lemma nl_read_rsize:
  "nl_read k r = (bs, None, r') \<Longrightarrow> 0 < k \<Longrightarrow> rsize r' < rsize r"
proof (induction k r rule: nl_read.induct)
  case (1 k r)
  obtain cs err r1 where rd: "Read k r = (cs, err, r1)" by (metis prod_cases3)
  show ?case
  proof (cases "cs = [] \<or> filter (\<lambda>b. b \<noteq> 0x0D \<and> b \<noteq> 0x0A) cs \<noteq> []")
    case True
    with rd "1.prems" have "Read k r = (cs, None, r')"
      by (subst (asm) nl_read.simps) (auto simp: Let_def split: if_splits)
    then show ?thesis using "1.prems"(2) by (rule Read_rsize_less)
  next
    case False
    with rd "1.prems" have "nl_read k r1 = (bs, None, r')"
      by (subst (asm) nl_read.simps) (auto simp: Let_def split: if_splits)
    with "1.IH" rd False "1.prems"(2) have "rsize r' < rsize r1" by auto
    moreover have "rsize r1 \<le> rsize r" using rd by (rule Read_rsize_le)
    ultimately show ?thesis by simp
  qed
qed

function b64_refill :: "nat \<Rightarrow> bytes \<Rightarrow> reader \<Rightarrow> bytes \<times> goerr option \<times> reader" where
  "b64_refill len buf r =
     (if length buf < 4 then
        (case nl_read (b64_want len - length buf) r of
           (bs, Some e, r') \<Rightarrow> (buf @ bs, Some e, r')
         | (bs, None, r') \<Rightarrow> b64_refill len (buf @ bs) r')
      else (buf, None, r))"
  by pat_completeness auto
termination
  by (relation "measure (\<lambda>(len, buf, r). rsize r)")
     (auto simp: b64_want_def dest!: sym [of _ "nl_read _ _"] nl_read_rsize)

declare b64_refill.simps [simp del]

text \<open>\<open>decoder.Read\<close> into a slice of \<open>len\<close> bytes, first call.\<close>

definition b64_Read :: "nat \<Rightarrow> reader \<Rightarrow> bytes \<times> goerr option \<times> reader" where
  "b64_Read len r =
     (case b64_refill len [] r of
        (buf, rerr, r') \<Rightarrow>
          if length buf < 4
          then ([], if rerr = Some EOF \<and> buf \<noteq> [] then Some ErrUnexpectedEOF else rerr, r')
          else case b64_decode (take (length buf div 4 * 4) buf) of
                 (out, bad) \<Rightarrow>
                   (take len out, if bad then Some CorruptInputError else None, r'))"

section \<open>Lemmas\<close>

text \<open>Reading through the decoder never gives bytes back to the stream.\<close>

lemma nl_read_rsize_le: "nl_read k r = (bs, err, r') \<Longrightarrow> rsize r' \<le> rsize r"
proof (induction k r rule: nl_read.induct)
  case (1 k r)
  obtain cs err1 r1 where rd: "Read k r = (cs, err1, r1)" by (metis prod_cases3)
  from rd have "rsize r1 \<le> rsize r" by (rule Read_rsize_le)
  with rd "1.IH" "1.prems" show ?case
    by (subst (asm) (2) nl_read.simps)
       (fastforce simp: Let_def split: if_splits intro: order_trans)
qed

lemma b64_refill_rsize_le: "b64_refill len buf r = (out, err, r') \<Longrightarrow> rsize r' \<le> rsize r"
proof (induction len buf r rule: b64_refill.induct)
  case (1 len buf r)
  obtain cs err1 r1 where rd: "nl_read (b64_want len - length buf) r = (cs, err1, r1)"
    by (metis prod_cases3)
  from rd have "rsize r1 \<le> rsize r" by (rule nl_read_rsize_le)
  with rd "1.IH" "1.prems" show ?case
    by (subst (asm) (2) b64_refill.simps) (fastforce split: if_splits option.splits)
qed

lemma b64_Read_rsize_le: "b64_Read len r = (bs, err, r') \<Longrightarrow> rsize r' \<le> rsize r"
  by (auto simp: b64_Read_def split: prod.splits if_splits dest: b64_refill_rsize_le)

lemma unat_b64_char:
  "unat (b64_char i) =
     (if i < 26 then i + 65 else if i < 52 then i + 71 else if i < 62 then i - 4
      else if i = 62 then 43 else 47)"
  by (simp add: b64_char_def unat_of_nat del: of_nat_add of_nat_diff)

lemma b64_val_char [simp]: "i < 64 \<Longrightarrow> b64_val (b64_char i) = Some i"
  by (auto simp: b64_val_def unat_b64_char Let_def)

lemma b64_char_neq [simp]: "b64_char i \<noteq> 0x3D" "b64_char i \<noteq> 0x0D" "b64_char i \<noteq> 0x0A"
  using unat_b64_char [of i] by (auto split: if_splits)

lemma b64_val_pad [simp]: "b64_val 0x3D = None"
  by code_simp

lemma unat_byte_less [simp]: "unat (b :: byte) < 256"
  by (rule order.strict_trans2 [OF unsigned_less]) simp

lemma byte_parts_less [simp]:
  "unat (b :: byte) div 4 < 64" "unat (b :: byte) div 16 < 16" "unat (b :: byte) div 64 < 4"
  using unat_byte_less [of b] by linarith+

lemma b64_index_less [simp]:
  "x mod 4 * 16 < (64 :: nat)" "y mod 16 * 4 < (64 :: nat)"
  "k < 16 \<Longrightarrow> x mod 4 * 16 + k < (64 :: nat)" "m < 4 \<Longrightarrow> y mod 16 * 4 + m < (64 :: nat)"
  by linarith+

text \<open>Cutting three bytes into four six-bit values and joining them again.\<close>

lemma b64_join [simp]:
  "k < 16 \<Longrightarrow> x div 4 * 4 + (x mod 4 * 16 + k) div 16 = (x :: nat)"
  "x div 4 * 4 + x mod 4 = (x :: nat)"
  "k < 16 \<Longrightarrow> (x mod 4 * 16 + k) mod 16 = (k :: nat)"
  "m < 4 \<Longrightarrow> (y mod 16 * 4 + m) div 4 = (y mod 16 :: nat)"
  "m < 4 \<Longrightarrow> (y mod 16 * 4 + m) mod 4 = (m :: nat)"
  "y div 16 * 16 + y mod 16 = (y :: nat)"
  "z div 64 * 64 + z mod 64 = (z :: nat)"
  by (simp_all only: div_mult_mod_eq) simp_all

lemma b64_roundtrip [codec]: "b64_decode (b64_encode xs) = (xs, False)"
  by (induction xs rule: b64_encode.induct) (simp_all add: Let_def)

lemma b64_encode_length: "length (b64_encode xs) = (length xs + 2) div 3 * 4"
proof (induction xs rule: b64_encode.induct)
  case (4 a b c r)
  have "(5 + length r) div 3 = (length r + 2) div 3 + 1" by presburger
  with "4.IH" show ?case by (simp add: Let_def)
qed (simp_all add: Let_def)

lemma go_div_of_nat:
  "n \<le> 2 ^ 50 \<Longrightarrow> go_div (of_nat n) 3 = of_nat (n div 3)"
  "n \<le> 2 ^ 50 \<Longrightarrow> go_div (of_nat n) 4 = of_nat (n div 4)"
proof -
  have "int n div 3 = int (n div 3)" "int n div 4 = int (n div 4)" by simp_all
  then show "n \<le> 2 ^ 50 \<Longrightarrow> go_div (of_nat n) 3 = of_nat (n div 3)"
    and "n \<le> 2 ^ 50 \<Longrightarrow> go_div (of_nat n) 4 = of_nat (n div 4)"
    by (simp_all add: go_div_def sint_of_nat_goint signed_divide_int_def)
qed

lemma EncodedLen_of_nat:
  assumes "n \<le> 2 ^ 49"
  shows "EncodedLen (of_nat n) = of_nat ((n + 2) div 3 * 4)"
proof -
  have "of_nat n + 2 = (of_nat (n + 2) :: goint)" by simp
  with assms go_div_of_nat(1) [of "n + 2"] show ?thesis
    by (simp only: EncodedLen_def) simp
qed

lemma DecodedLen_of_nat:
  "n \<le> 2 ^ 50 \<Longrightarrow> DecodedLen (of_nat n) = of_nat (n div 4 * 3)"
  by (simp add: DecodedLen_def go_div_of_nat)

lemma b64_encode_no_newline:
  "b \<in> set (b64_encode xs) \<Longrightarrow> b \<noteq> 0x0D \<and> b \<noteq> 0x0A"
  by (induction xs rule: b64_encode.induct) (auto simp: Let_def)

text \<open>
  What the decoder delivers from a stream that continues after the encoded text: with at
  most 768 bytes of data, i.e. 1024 encoded ones, the single \<open>Read\<close> call takes exactly
  the encoded text and returns the data.
\<close>

lemma nl_read_single:
  assumes "s \<noteq> []" and "\<And>b. b \<in> set (take k s) \<Longrightarrow> b \<noteq> 0x0D \<and> b \<noteq> 0x0A" and "0 < k"
  shows "nl_read k [s] = (take k s, None, [drop k s])"
proof -
  have "filter (\<lambda>b. b \<noteq> 0x0D \<and> b \<noteq> 0x0A) (take k s) = take k s"
    using assms(2) by (simp add: filter_id_conv)
  then show ?thesis
    using assms(1,3) by (subst nl_read.simps) (simp add: Read_single)
qed

lemma b64_refill_single:
  assumes "s \<noteq> []" and "\<And>b. b \<in> set (take (b64_want len) s) \<Longrightarrow> b \<noteq> 0x0D \<and> b \<noteq> 0x0A"
    and "4 \<le> length s"
  shows "b64_refill len [] [s] = (take (b64_want len) s, None, [drop (b64_want len) s])"
proof -
  have w: "0 < b64_want len" and w4: "\<not> length (take (b64_want len) s) < 4"
    using assms(3) by (auto simp: b64_want_def)
  from assms(1,2) w have
    "nl_read (b64_want len) [s] = (take (b64_want len) s, None, [drop (b64_want len) s])"
    by (rule nl_read_single)
  with w4 show ?thesis
    by (subst b64_refill.simps) (simp, subst b64_refill.simps, simp)
qed

lemma b64_Read_encoded [codec]:
  assumes "xs \<noteq> []" and "length xs \<le> 768" and "len = (length xs + 2) div 3 * 3"
  shows "b64_Read len [b64_encode xs @ rest] = (xs, None, [rest])"
proof -
  let ?e = "b64_encode xs"
  have le: "length ?e = (length xs + 2) div 3 * 4" by (rule b64_encode_length)
  have n1: "1 \<le> (length xs + 2) div 3" using assms(1) by (cases xs) simp_all
  have want: "b64_want len = length ?e"
    using assms(2,3) n1 le by (simp add: b64_want_def)
  have "?e \<noteq> []" using le n1 by auto
  then have refill: "b64_refill len [] [?e @ rest] = (?e, None, [rest])"
    using b64_refill_single [of "?e @ rest" len] want le n1 b64_encode_no_newline [of _ xs]
    by simp
  have "length xs \<le> len" using assms(3) by presburger
  then show ?thesis
    using refill le n1 by (simp add: b64_Read_def b64_roundtrip)
qed

text \<open>
  With more than 768 bytes the same call stops at its 1024-byte buffer: it returns the first
  768 bytes of the data and leaves the rest of the encoded text in the stream.
\<close>

lemma b64_encode_append:
  "length xs mod 3 = 0 \<Longrightarrow> b64_encode (xs @ ys) = b64_encode xs @ b64_encode ys"
proof (induction xs rule: b64_encode.induct)
  case (4 a b c r)
  have "length r mod 3 = 0" using "4.prems" by simp
  with "4.IH" show ?case by (simp add: Let_def)
qed simp_all

lemma b64_Read_oversize [codec]:
  assumes "768 < length xs" and "len = (length xs + 2) div 3 * 3"
  shows "b64_Read len [b64_encode xs @ rest] =
           (take 768 xs, None, [b64_encode (drop 768 xs) @ rest])"
proof -
  let ?a = "take 768 xs"
  have la: "length ?a = 768" using assms(1) by simp
  have e: "b64_encode xs = b64_encode ?a @ b64_encode (drop 768 xs)"
    using b64_encode_append [of ?a "drop 768 xs"] la by simp
  have le: "length (b64_encode ?a) = 1024" by (simp only: b64_encode_length la) simp
  have len: "771 \<le> len" using assms by presburger
  then have want: "b64_want len = 1024" by (auto simp: b64_want_def)
  have "b64_encode ?a \<noteq> []" using le by auto
  then have refill: "b64_refill len [] [b64_encode xs @ rest] =
      (b64_encode ?a, None, [b64_encode (drop 768 xs) @ rest])"
    using b64_refill_single [of "b64_encode xs @ rest" len] want le b64_encode_no_newline [of _ ?a]
    by (simp add: e)
  then show ?thesis
    using le len la by (simp add: b64_Read_def b64_roundtrip)
qed

end
