(* ===== verification/Go_Json.thy ===== *)
theory Go_Json
  imports Prelude Go_Base64
begin

text \<open>
  Go values that travel in socket.io packets, and \<open>encoding/json\<close> on them: \<open>Marshal\<close> with
  its HTML-safe string escapes, and \<open>Unmarshal\<close> into an \<open>interface{}\<close>. A number is kept as
  its JSON literal, so float64 rounding is outside the model. Function values are opaque:
  an identity and the signature that reflection sees.
\<close>

section \<open>Types and values\<close>

text \<open>
  The types that \<open>reflect\<close> distinguishes in callbacks. \<open>RBytes\<close> is the package's \<open>Bytes\<close>, and
  \<open>[]byte\<close> is \<open>RSlice RUint8\<close>. \<open>RCustom i m b u\<close> is a type that the user declares, with the underlying
  type \<open>u\<close>: \<open>m\<close> says that it has a msgpack decoder of its own (\<open>msgp.Unmarshaler\<close> or
  \<open>msgp.Extension\<close>), \<open>b\<close> that it is an \<open>encoding.BinaryUnmarshaler\<close>.
\<close>

datatype rtype =
    RSocket
  | RPtr rtype
  | RBytes
  | RInterface
  | RBool
  | RString
  | RInt
  | RInt8
  | RInt16
  | RInt32
  | RInt64
  | RUint
  | RUint8
  | RUint16
  | RUint32
  | RUint64
  | RFloat32
  | RFloat64
  | RComplex64
  | RComplex128
  | RDuration
  | RTime
  | RSlice rtype
  | RArray nat rtype
  | RMap rtype rtype
  | RStruct
  | RChan
  | RFunc
  | RUnsafePointer
  | RCustom nat bool bool rtype

text \<open>\<open>Kind\<close>: that of the underlying type.\<close>

fun kind_of :: "rtype \<Rightarrow> rtype" where
  "kind_of (RCustom _ _ _ u) = kind_of u"
| "kind_of t = t"

record gofunc =
  fn_id :: nat
  fn_in :: "rtype list"
  fn_out :: nat
  fn_variadic :: bool

datatype gval =
    GNil
  | GBool bool
  | GNum bytes
  | GStr bytes
  | GRaw bytes
  | GList "gval list"
  | GMap "(bytes \<times> gval) list"
  | GBytes bytes
  | GPlaceholder nat
  | GFunc gofunc

section \<open>UTF-8\<close>

definition cont :: "byte \<Rightarrow> bool" where
  "cont b \<longleftrightarrow> 0x80 \<le> b \<and> b \<le> 0xBF"

text \<open>How many bytes a rune with this first byte has, and when they form a rune.\<close>

definition rune_need :: "byte \<Rightarrow> nat" where
  "rune_need b =
     (if b < 0x80 then 1
      else if 0xC2 \<le> b \<and> b \<le> 0xDF then 2
      else if 0xE0 \<le> b \<and> b \<le> 0xEF then 3
      else if 0xF0 \<le> b \<and> b \<le> 0xF4 then 4
      else 0)"

definition rune_ok :: "bytes \<Rightarrow> bool" where
  "rune_ok u \<longleftrightarrow>
     list_all cont (tl u) \<and>
     (case u of
        b # c # _ \<Rightarrow>
          (b = 0xE0 \<longrightarrow> 0xA0 \<le> c) \<and> (b = 0xED \<longrightarrow> c \<le> 0x9F)
          \<and> (b = 0xF0 \<longrightarrow> 0x90 \<le> c) \<and> (b = 0xF4 \<longrightarrow> c \<le> 0x8F)
      | _ \<Rightarrow> True)"

text \<open>The size of the first rune as \<open>utf8.DecodeRune\<close> accepts it; 0 for an invalid one.\<close>

definition rune_len :: "bytes \<Rightarrow> nat" where
  "rune_len s =
     (case s of
        [] \<Rightarrow> 0
      | b # _ \<Rightarrow>
          let n = rune_need b in
          if n \<noteq> 0 \<and> n \<le> length s \<and> rune_ok (take n s) then n else 0)"

text \<open>\<open>utf8.EncodeRune\<close> of a code point.\<close>

definition rune_enc :: "nat \<Rightarrow> bytes" where
  "rune_enc c =
     (if c < 0x80 then [of_nat c]
      else if c < 0x800 then [of_nat (0xC0 + c div 64), of_nat (0x80 + c mod 64)]
      else if c < 0x10000
        then [of_nat (0xE0 + c div 4096), of_nat (0x80 + c div 64 mod 64), of_nat (0x80 + c mod 64)]
      else [of_nat (0xF0 + c div 262144), of_nat (0x80 + c div 4096 mod 64),
            of_nat (0x80 + c div 64 mod 64), of_nat (0x80 + c mod 64)])"

abbreviation (input) rune_error :: nat where "rune_error \<equiv> 0xFFFD"

section \<open>Marshal\<close>

definition hexdig :: "nat \<Rightarrow> byte" where
  "hexdig n = (if n < 10 then of_nat (n + 48) else of_nat (n + 87))"

definition esc1 :: "byte \<Rightarrow> bytes" where
  "esc1 b =
     (if b = 0x22 \<or> b = 0x5C then [0x5C, b]
      else if b = 0x0A then [0x5C, 0x6E]
      else if b = 0x0D then [0x5C, 0x72]
      else if b = 0x09 then [0x5C, 0x74]
      else if b < 0x20 \<or> b = 0x3C \<or> b = 0x3E \<or> b = 0x26
        then [0x5C, 0x75, 0x30, 0x30, hexdig (unat b div 16), hexdig (unat b mod 16)]
      else [b])"

function json_esc :: "bytes \<Rightarrow> bytes" where
  "json_esc [] = []"
| "json_esc (b # r) =
     (if b < 0x80 then esc1 b @ json_esc r
      else let n = rune_len (b # r) in
        if n = 0 then [0x5C, 0x75, 0x66, 0x66, 0x66, 0x64] @ json_esc r
        else if take 3 (b # r) = [0xE2, 0x80, 0xA8] \<or> take 3 (b # r) = [0xE2, 0x80, 0xA9]
          then [0x5C, 0x75, 0x32, 0x30, 0x32, hexdig (unat ((b # r) ! 2) mod 16)]
               @ json_esc (drop 3 (b # r))
        else take n (b # r) @ json_esc (drop n (b # r)))"
  by pat_completeness auto
termination
  by (relation "measure length") (auto simp: Let_def)

definition json_string :: "bytes \<Rightarrow> bytes" where
  "json_string s = 0x22 # json_esc s @ [0x22]"

fun sep_by :: "byte \<Rightarrow> bytes list \<Rightarrow> bytes" where
  "sep_by c [] = []"
| "sep_by c [x] = x"
| "sep_by c (x # xs) = x @ c # sep_by c xs"

text \<open>
  \<open>placeholder.MarshalJSON\<close> of the default parser gives the placeholder text; \<open>[]byte\<close> is a
  base64 string; a \<open>Bytes\<close> that is not extracted as an attachment is a struct with a \<open>Data\<close>
  field; a function value is an unsupported type.
\<close>

definition placeholder_json :: "nat \<Rightarrow> bytes" where
  "placeholder_json n = asc ''{\"_placeholder\":true,\"num\":'' @ dec n @ asc ''}''"

fun json_marshal :: "gval \<Rightarrow> bytes option" where
  "json_marshal GNil = Some (asc ''null'')"
| "json_marshal (GBool b) = Some (asc (if b then ''true'' else ''false''))"
| "json_marshal (GNum l) = Some l"
| "json_marshal (GStr s) = Some (json_string s)"
| "json_marshal (GRaw b) = Some (0x22 # b64_encode b @ [0x22])"
| "json_marshal (GList vs) =
     map_option (\<lambda>xs. 0x5B # sep_by 0x2C xs @ [0x5D]) (those (map json_marshal vs))"
| "json_marshal (GMap kvs) =
     map_option (\<lambda>xs. 0x7B # sep_by 0x2C xs @ [0x7D])
       (those (map (\<lambda>(k, v). map_option (\<lambda>x. json_string k @ 0x3A # x) (json_marshal v)) kvs))"
| "json_marshal (GBytes b) = Some (asc ''{\"Data\":\"'' @ b64_encode b @ asc ''\"}'')"
| "json_marshal (GPlaceholder n) = Some (placeholder_json n)"
| "json_marshal (GFunc f) = None"

text \<open>\<open>json.NewEncoder(w).Encode(v)\<close> appends a newline.\<close>

definition json_encode :: "gval \<Rightarrow> goerr + bytes" where
  "json_encode v = (case json_marshal v of None \<Rightarrow> Inl JsonError | Some x \<Rightarrow> Inr (x @ [0x0A]))"

section \<open>Unmarshal\<close>

definition is_ws :: "byte \<Rightarrow> bool" where
  "is_ws b \<longleftrightarrow> b = 0x20 \<or> b = 0x09 \<or> b = 0x0A \<or> b = 0x0D"

abbreviation skip_ws :: "bytes \<Rightarrow> bytes" where "skip_ws \<equiv> dropWhile is_ws"

definition hexval :: "byte \<Rightarrow> nat option" where
  "hexval b =
     (let c = unat b in
      if 48 \<le> c \<and> c \<le> 57 then Some (c - 48)
      else if 97 \<le> c \<and> c \<le> 102 then Some (c - 87)
      else if 65 \<le> c \<and> c \<le> 70 then Some (c - 55)
      else None)"

text \<open>The four hex digits of a \<open>\u\<close> escape.\<close>

fun getu4 :: "bytes \<Rightarrow> nat option" where
  "getu4 (a # b # c # d # _) =
     (case (hexval a, hexval b, hexval c, hexval d) of
        (Some w, Some x, Some y, Some z) \<Rightarrow> Some (((w * 16 + x) * 16 + y) * 16 + z)
      | _ \<Rightarrow> None)"
| "getu4 _ = None"

text \<open>One-character escapes.\<close>

definition unesc1 :: "byte \<Rightarrow> byte option" where
  "unesc1 c =
     (if c = 0x22 \<or> c = 0x5C \<or> c = 0x2F then Some c
      else if c = 0x62 then Some 0x08
      else if c = 0x66 then Some 0x0C
      else if c = 0x6E then Some 0x0A
      else if c = 0x72 then Some 0x0D
      else if c = 0x74 then Some 0x09
      else None)"

text \<open>
  The body of a string after its opening quote: the decoded bytes and the text after the
  closing quote. A \<open>\u\<close> escape of a surrogate pair is one rune; a lone surrogate and an
  invalid UTF-8 byte become U+FFFD.
\<close>

function json_str :: "bytes \<Rightarrow> (bytes \<times> bytes) option" where
  "json_str [] = None"
| "json_str (b # r) =
     (if b = 0x22 then Some ([], r)
      else if b = 0x5C then
        (case r of
           [] \<Rightarrow> None
         | c # r' \<Rightarrow>
             if c = 0x75 then
               (case getu4 r' of
                  None \<Rightarrow> None
                | Some u \<Rightarrow>
                    let r4 = drop 4 r' in
                    if 0xD800 \<le> u \<and> u < 0xE000 then
                      (case (take 2 r4 = [0x5C, 0x75], getu4 (drop 2 r4)) of
                         (True, Some v) \<Rightarrow>
                           if u < 0xDC00 \<and> 0xDC00 \<le> v \<and> v < 0xE000
                           then map_option (apfst ((@) (rune_enc
                                  ((u - 0xD800) * 1024 + (v - 0xDC00) + 0x10000))))
                                  (json_str (drop 6 r4))
                           else map_option (apfst ((@) (rune_enc rune_error))) (json_str r4)
                       | _ \<Rightarrow> map_option (apfst ((@) (rune_enc rune_error))) (json_str r4))
                    else map_option (apfst ((@) (rune_enc u))) (json_str r4))
             else (case unesc1 c of
                     None \<Rightarrow> None
                   | Some x \<Rightarrow> map_option (apfst ((#) x)) (json_str r')))
      else if b < 0x20 then None
      else if b < 0x80 then map_option (apfst ((#) b)) (json_str r)
      else let n = rune_len (b # r) in
        if n = 0 then map_option (apfst ((@) (rune_enc rune_error))) (json_str r)
        else map_option (apfst ((@) (take n (b # r)))) (json_str (drop n (b # r))))"
  by pat_completeness auto
termination
  by (relation "measure length") (auto simp: Let_def)

declare json_str.simps(2) [simp del]

text \<open>Numbers: the longest run of number characters must be a JSON number.\<close>

definition num_char :: "byte \<Rightarrow> bool" where
  "num_char b \<longleftrightarrow> is_digit b \<or> b = 0x2D \<or> b = 0x2B \<or> b = 0x2E \<or> b = 0x65 \<or> b = 0x45"

definition valid_exp :: "bytes \<Rightarrow> bool" where
  "valid_exp s \<longleftrightarrow>
     (case s of
        [] \<Rightarrow> True
      | b # r \<Rightarrow> (b = 0x65 \<or> b = 0x45) \<and>
          (let ds = (case r of c # r' \<Rightarrow> if c = 0x2B \<or> c = 0x2D then r' else r | [] \<Rightarrow> [])
           in ds \<noteq> [] \<and> list_all is_digit ds))"

definition valid_frac :: "bytes \<Rightarrow> bool" where
  "valid_frac s \<longleftrightarrow>
     (case s of
        [] \<Rightarrow> True
      | b # r \<Rightarrow> if b = 0x2E then takeWhile is_digit r \<noteq> [] \<and> valid_exp (dropWhile is_digit r)
                 else valid_exp s)"

definition valid_num :: "bytes \<Rightarrow> bool" where
  "valid_num s \<longleftrightarrow>
     (let t = (case s of b # r \<Rightarrow> if b = 0x2D then r else s | [] \<Rightarrow> []) in
      case t of
        [] \<Rightarrow> False
      | b # r \<Rightarrow> if b = 0x30 then valid_frac r
                 else is_digit b \<and> valid_frac (dropWhile is_digit r))"

text \<open>A map keeps the last value of a repeated key.\<close>

fun last_wins :: "('a \<times> 'b) list \<Rightarrow> ('a \<times> 'b) list" where
  "last_wins [] = []"
| "last_wins ((k, v) # m) = (if k \<in> fst ` set m then last_wins m else (k, v) # last_wins m)"

lemma last_wins_distinct [simp]: "distinct (map fst m) \<Longrightarrow> last_wins m = m"
  by (induction m rule: last_wins.induct) (auto simp: image_iff)

fun json_val :: "nat \<Rightarrow> bytes \<Rightarrow> (gval \<times> bytes) option"
  and json_elems :: "nat \<Rightarrow> bytes \<Rightarrow> (gval list \<times> bytes) option"
  and json_members :: "nat \<Rightarrow> bytes \<Rightarrow> ((bytes \<times> gval) list \<times> bytes) option" where
  "json_val 0 s = None"
| "json_val (Suc f) s =
     (case skip_ws s of
        [] \<Rightarrow> None
      | b # r \<Rightarrow>
          if b = 0x22 then map_option (apfst GStr) (json_str r)
          else if b = 0x5B then
            (case skip_ws r of
               [] \<Rightarrow> None
             | c # r' \<Rightarrow> if c = 0x5D then Some (GList [], r')
                         else map_option (apfst GList) (json_elems f (c # r')))
          else if b = 0x7B then
            (case skip_ws r of
               [] \<Rightarrow> None
             | c # r' \<Rightarrow> if c = 0x7D then Some (GMap [], r')
                         else map_option (apfst (\<lambda>m. GMap (last_wins m))) (json_members f (c # r')))
          else if take 4 (b # r) = asc ''true'' then Some (GBool True, drop 3 r)
          else if take 5 (b # r) = asc ''false'' then Some (GBool False, drop 4 r)
          else if take 4 (b # r) = asc ''null'' then Some (GNil, drop 3 r)
          else if valid_num (takeWhile num_char (b # r))
            then Some (GNum (takeWhile num_char (b # r)), dropWhile num_char (b # r))
          else None)"
| "json_elems 0 s = None"
| "json_elems (Suc f) s =
     (case json_val f s of
        None \<Rightarrow> None
      | Some (v, r) \<Rightarrow>
          (case skip_ws r of
             [] \<Rightarrow> None
           | c # r' \<Rightarrow>
               if c = 0x2C then map_option (apfst ((#) v)) (json_elems f r')
               else if c = 0x5D then Some ([v], r')
               else None))"
| "json_members 0 s = None"
| "json_members (Suc f) s =
     (case skip_ws s of
        [] \<Rightarrow> None
      | q # s' \<Rightarrow>
          if q \<noteq> 0x22 then None
          else (case json_str s' of
            None \<Rightarrow> None
          | Some (k, r) \<Rightarrow>
              (case skip_ws r of
                 [] \<Rightarrow> None
               | c # r1 \<Rightarrow>
                   if c \<noteq> 0x3A then None
                   else (case json_val f r1 of
                     None \<Rightarrow> None
                   | Some (v, r2) \<Rightarrow>
                       (case skip_ws r2 of
                          [] \<Rightarrow> None
                        | d # r3 \<Rightarrow>
                            if d = 0x2C
                            then map_option (apfst ((#) (k, v))) (json_members f r3)
                            else if d = 0x7D then Some ([(k, v)], r3)
                            else None)))))"

text \<open>
  Every level of the recursion consumes a byte or follows one that did, so twice the length
  of the input is enough fuel.
\<close>

definition json_unmarshal :: "bytes \<Rightarrow> goerr + gval" where
  "json_unmarshal s =
     (case json_val (2 * length s + 2) s of
        Some (v, r) \<Rightarrow> if skip_ws r = [] then Inr v else Inl JsonError
      | None \<Rightarrow> Inl JsonError)"

section \<open>Round trip of strings\<close>

function valid_utf8 :: "bytes \<Rightarrow> bool" where
  "valid_utf8 [] = True"
| "valid_utf8 (b # r) =
     (let n = rune_len (b # r) in n \<noteq> 0 \<and> valid_utf8 (drop (n - 1) r))"
  by pat_completeness auto
termination
  by (relation "measure length") auto

lemma rune_len_ascii [simp]: "b < 0x80 \<Longrightarrow> rune_len (b # r) = 1"
  by (simp add: rune_len_def rune_need_def rune_ok_def)

lemma rune_len_le: "rune_len s \<le> length s"
  by (auto simp: rune_len_def Let_def split: list.splits)

lemma rune_len_take:
  assumes "rune_len s \<noteq> 0"
  shows "rune_len (take (rune_len s) s @ t) = rune_len s"
proof (cases s)
  case Nil
  with assms show ?thesis by (simp add: rune_len_def)
next
  case (Cons b r)
  with assms have "rune_len s = rune_need b" "rune_need b \<le> length s" "rune_ok (take (rune_need b) s)"
    "rune_need b \<noteq> 0"
    by (auto simp: rune_len_def Let_def split: if_splits)
  with Cons show ?thesis
    by (cases "rune_need b") (auto simp: rune_len_def Let_def)
qed

lemma rune_len_ge2: "rune_len (b # r) \<noteq> 0 \<Longrightarrow> \<not> b < 0x80 \<Longrightarrow> 2 \<le> rune_len (b # r)"
  by (auto simp: rune_len_def rune_need_def Let_def split: if_splits)

lemma unat_hexdig: "n < 16 \<Longrightarrow> unat (hexdig n) = (if n < 10 then n + 48 else n + 87)"
  by (simp add: hexdig_def unat_of_nat del: of_nat_add)

lemma hexval_hexdig [simp]: "n < 16 \<Longrightarrow> hexval (hexdig n) = Some n"
  by (auto simp: hexval_def unat_hexdig Let_def)

lemma hexval_lits [simp]:
  "hexval 0x30 = Some 0" "hexval 0x32 = Some 2" "hexval 0x38 = Some 8"
  by (simp_all add: hexval_def Let_def)

lemma byte_nibbles:
  "unat (b :: byte) div 16 < 16" "unat (b :: byte) mod 16 < 16"
  by simp_all

lemma rune_enc_byte: "b < 0x80 \<Longrightarrow> rune_enc (unat b) = [b]"
  by (simp add: rune_enc_def word_less_nat_alt)

lemma append_single_fun: "(@) [b] = (#) b"
  by (simp add: fun_eq_iff)

lemma json_str_esc1:
  assumes "b < 0x80"
  shows "json_str (esc1 b @ t) = map_option (apfst ((#) b)) (json_str t)"
proof -
  have u: "unat b div 16 * 16 + unat b mod 16 = unat b" "unat b < 128"
    using assms by (simp_all add: word_less_nat_alt)
  have rb: "rune_enc (unat b) = [b]" using assms by (rule rune_enc_byte)
  show ?thesis
    using assms u
    by (auto simp: esc1_def json_str.simps(2) unesc1_def byte_nibbles rb Let_def append_single_fun)
qed

lemma json_str_rune:
  assumes "rune_len (b # r) \<noteq> 0" and "\<not> b < 0x80"
  shows "json_str (take (rune_len (b # r)) (b # r) @ t) =
           map_option (apfst ((@) (take (rune_len (b # r)) (b # r)))) (json_str t)"
proof -
  let ?n = "rune_len (b # r)"
  obtain m where m: "?n = Suc m" using assms(1) by (cases ?n) auto
  have l: "length (take ?n (b # r)) = ?n" using rune_len_le [of "b # r"] by simp
  have hd: "b \<noteq> 0x22" "b \<noteq> 0x5C" "\<not> b < 0x20"
    using assms(2) by (auto simp: word_less_nat_alt)
  have "rune_len (b # take m r @ t) = ?n"
    using rune_len_take [OF assms(1), of t] m by simp
  then show ?thesis
    using hd assms(2) l m by (simp add: json_str.simps(2) Let_def)
qed

lemma json_str_linesep:
  "json_str ([0x5C, 0x75, 0x32, 0x30, 0x32, 0x38] @ t) =
     map_option (apfst ((@) [0xE2, 0x80, 0xA8])) (json_str t)"
  "json_str ([0x5C, 0x75, 0x32, 0x30, 0x32, 0x39] @ t) =
     map_option (apfst ((@) [0xE2, 0x80, 0xA9])) (json_str t)"
  by (simp_all add: json_str.simps(2) rune_enc_def hexval_def)

lemma hexdig_89: "hexdig 8 = 0x38" "hexdig 9 = 0x39"
  by (simp_all add: hexdig_def)

theorem json_str_json_esc [codec]:
  "valid_utf8 s \<Longrightarrow> json_str (json_esc s @ 0x22 # r) = Some (s, r)"
proof (induction s rule: json_esc.induct)
  case 1
  then show ?case by (simp add: json_str.simps(2))
next
  case (2 b s)
  show ?case
  proof (cases "b < 0x80")
    case True
    with 2 show ?thesis by (simp add: json_str_esc1 Let_def)
  next
    case False
    let ?s = "b # s" and ?n = "rune_len (b # s)"
    from 2 have n: "?n \<noteq> 0" and v: "valid_utf8 (drop (?n - 1) s)" by (auto simp: Let_def)
    have dr: "drop ?n ?s = drop (?n - 1) s" using n by (cases ?n) auto
    show ?thesis
    proof (cases "take 3 ?s = [0xE2, 0x80, 0xA8] \<or> take 3 ?s = [0xE2, 0x80, 0xA9]")
      case True
      then obtain c where c: "take 3 ?s = [0xE2, 0x80, c]" "c = 0xA8 \<or> c = 0xA9" by blast
      then have s: "?s = 0xE2 # 0x80 # c # drop 3 ?s"
        by (metis append_Cons append_Nil append_take_drop_id)
      then have b: "b = 0xE2" "s = 0x80 # c # drop 3 ?s" by simp_all
      have n3: "?n = 3"
        using c(2) by (subst s) (auto simp: rune_len_def rune_need_def rune_ok_def cont_def)
      have v3: "valid_utf8 (drop 3 ?s)" using v n3 by simp
      have e: "json_esc ?s =
          [0x5C, 0x75, 0x32, 0x30, 0x32, hexdig (unat c mod 16)] @ json_esc (drop 3 ?s)"
        using False n True b(2) by (simp add: Let_def) (metis nth_Cons_0 nth_Cons_Suc numeral_2_eq_2)
      have "json_str (json_esc (drop 3 ?s) @ 0x22 # r) = Some (drop 3 ?s, r)"
        using "2.IH"(3) False n True v3 by simp
      with e c(2) s json_str_linesep [of "json_esc (drop 3 ?s) @ 0x22 # r"] show ?thesis
        by (auto simp: hexdig_89)
    next
      case F: False
      then have "json_esc ?s = take ?n ?s @ json_esc (drop ?n ?s)"
        using False n by (auto simp: Let_def)
      moreover have "json_str (json_esc (drop ?n ?s) @ 0x22 # r) = Some (drop ?n ?s, r)"
        using "2.IH"(4) False n F v dr by simp
      ultimately show ?thesis
        using json_str_rune [OF n False, of "json_esc (drop ?n ?s) @ 0x22 # r"]
        by simp
    qed
  qed
qed

section \<open>Round trip of values\<close>

text \<open>
  The values that a JSON text can hold: valid UTF-8 strings, JSON number literals, lists, and
  maps without duplicate keys.
\<close>

fun json_plain :: "gval \<Rightarrow> bool" where
  "json_plain GNil = True"
| "json_plain (GBool b) = True"
| "json_plain (GNum l) = (valid_num l \<and> list_all num_char l)"
| "json_plain (GStr s) = valid_utf8 s"
| "json_plain (GList vs) = list_all json_plain vs"
| "json_plain (GMap kvs) =
     (list_all (\<lambda>(k, v). valid_utf8 k \<and> json_plain v) kvs \<and> distinct (map fst kvs))"
| "json_plain _ = False"

text \<open>What may follow a value: not a character that would continue a number.\<close>

definition delim :: "bytes \<Rightarrow> bool" where
  "delim r \<longleftrightarrow> r = [] \<or> \<not> num_char (hd r)"

text \<open>\<open>x\<close> is a text of \<open>v\<close>: it starts like a value and parses as \<open>v\<close> with enough fuel.\<close>

definition text_of :: "gval \<Rightarrow> bytes \<Rightarrow> bool" where
  "text_of v x \<longleftrightarrow>
     x \<noteq> [] \<and> \<not> is_ws (hd x) \<and> hd x \<noteq> 0x5D \<and> hd x \<noteq> 0x7D \<and>
     (\<forall>f r. 2 * length x \<le> f \<longrightarrow> delim r \<longrightarrow> json_val f (x @ r) = Some (v, r))"

lemma text_of_val:
  "text_of v x \<Longrightarrow> 2 * length x \<le> f \<Longrightarrow> delim r \<Longrightarrow> json_val f (x @ r) = Some (v, r)"
  by (simp add: text_of_def)

lemma text_of_skip: "text_of v x \<Longrightarrow> skip_ws (x @ r) = x @ r"
  by (cases x) (auto simp: text_of_def)

lemma delim_simps [simp]:
  "delim (0x2C # r)" "delim (0x5D # r)" "delim (0x7D # r)" "delim (0x0A # r)" "delim []"
  by (simp_all add: delim_def num_char_def is_digit_def)

lemma is_ws_lits [simp]:
  "\<not> is_ws 0x22" "\<not> is_ws 0x2C" "\<not> is_ws 0x3A" "\<not> is_ws 0x5B" "\<not> is_ws 0x5D"
  "\<not> is_ws 0x7B" "\<not> is_ws 0x7D" "\<not> is_ws 0x74" "\<not> is_ws 0x66" "\<not> is_ws 0x6E"
  by (simp_all add: is_ws_def)

lemma sep_by_Cons: "xs \<noteq> [] \<Longrightarrow> sep_by c (x # xs) = x @ c # sep_by c xs"
  by (cases xs) simp_all

lemma json_elems_text:
  assumes "list_all2 text_of vs xs" and "vs \<noteq> []" and "2 * length (sep_by 0x2C xs) + 1 \<le> f"
  shows "json_elems f (sep_by 0x2C xs @ 0x5D # r) = Some (vs, r)"
  using assms
proof (induction vs arbitrary: xs f)
  case Nil
  then show ?case by simp
next
  case (Cons v vs)
  then obtain x ys where xs: "xs = x # ys" "text_of v x" "list_all2 text_of vs ys"
    by (auto simp: list_all2_Cons1)
  from Cons.prems(3) obtain g where f: "f = Suc g" by (cases f) auto
  show ?case
  proof (cases ys)
    case Nil
    with xs Cons.prems(3) f show ?thesis
      by (simp add: text_of_val)
  next
    case (Cons y zs)
    with xs have ne: "vs \<noteq> []" "ys \<noteq> []" by auto
    then have s: "sep_by 0x2C xs = x @ 0x2C # sep_by 0x2C ys"
      using xs by (simp add: sep_by_Cons)
    have "json_elems g (sep_by 0x2C ys @ 0x5D # r) = Some (vs, r)"
      using Cons.IH [OF xs(3) ne(1)] Cons.prems(3) f s by simp
    with s f xs(2) Cons.prems(3) show ?thesis
      by (simp add: text_of_val)
  qed
qed

definition member_text :: "bytes \<times> gval \<Rightarrow> bytes \<Rightarrow> bool" where
  "member_text kv x \<longleftrightarrow>
     valid_utf8 (fst kv) \<and> (\<exists>y. x = json_string (fst kv) @ 0x3A # y \<and> text_of (snd kv) y)"

lemma json_members_step:
  assumes "member_text (k, v) x" and "2 * length x \<le> f" and "delim (d # r)" and "\<not> is_ws d"
  shows "json_members (Suc f) (x @ d # r) =
    (if d = 0x2C
     then map_option (apfst ((#) (k, v))) (json_members f r)
     else if d = 0x7D then Some ([(k, v)], r) else None)"
proof -
  obtain y where x: "x = json_string k @ 0x3A # y" and y: "text_of v y" and k: "valid_utf8 k"
    using assms(1) by (auto simp: member_text_def)
  have "json_val f (y @ d # r) = Some (v, d # r)"
    using y assms(2,3) x by (intro text_of_val) simp_all
  with assms(4) k show ?thesis
    by (simp add: x json_string_def json_str_json_esc)
qed

lemma json_members_text:
  assumes "list_all2 member_text kvs xs" and "kvs \<noteq> []"
    and "2 * length (sep_by 0x2C xs) + 1 \<le> f"
  shows "json_members f (sep_by 0x2C xs @ 0x7D # r) = Some (kvs, r)"
  using assms
proof (induction kvs arbitrary: xs f)
  case Nil
  then show ?case by simp
next
  case (Cons kv kvs)
  then obtain x ys where xs: "xs = x # ys" "member_text kv x" "list_all2 member_text kvs ys"
    by (auto simp: list_all2_Cons1)
  obtain k v where kv: "kv = (k, v)" by (cases kv)
  from Cons.prems(3) obtain g where f: "f = Suc g" by (cases f) auto
  show ?case
  proof (cases ys)
    case Nil
    with xs kv Cons.prems(3) f show ?thesis
      by (simp add: json_members_step del: json_members.simps)
  next
    case (Cons y zs)
    with xs have ne: "kvs \<noteq> []" "ys \<noteq> []" by auto
    then have s: "sep_by 0x2C xs = x @ 0x2C # sep_by 0x2C ys"
      using xs by (simp add: sep_by_Cons)
    have "json_members g (sep_by 0x2C ys @ 0x7D # r) = Some (kvs, r)"
      using Cons.IH [OF xs(3) ne(1)] Cons.prems(3) f s by simp
    with s f xs(2) kv Cons.prems(3) show ?thesis
      by (simp add: json_members_step del: json_members.simps)
  qed
qed

lemma valid_num_hd: "valid_num l \<Longrightarrow> l \<noteq> [] \<and> (hd l = 0x2D \<or> is_digit (hd l))"
  by (cases l) (auto simp: valid_num_def is_digit_def split: list.splits if_splits)

lemma is_digit_lits [simp]:
  "\<not> is_digit 0x22" "\<not> is_digit 0x5B" "\<not> is_digit 0x7B" "\<not> is_digit 0x74" "\<not> is_digit 0x66"
  "\<not> is_digit 0x6E" "\<not> is_digit 0x5D" "\<not> is_digit 0x7D" "\<not> is_digit 0x20" "\<not> is_digit 0x09"
  "\<not> is_digit 0x0A" "\<not> is_digit 0x0D"
  by (simp_all add: is_digit_def)

lemma text_of_num:
  assumes "valid_num l" and "list_all num_char l"
  shows "text_of (GNum l) l"
proof -
  obtain b t where l: "l = b # t" and b: "b = 0x2D \<or> is_digit b"
    using valid_num_hd [OF assms(1)] by (cases l) auto
  have b': "b \<noteq> 0x22" "b \<noteq> 0x5B" "b \<noteq> 0x7B" "b \<noteq> 0x74" "b \<noteq> 0x66" "b \<noteq> 0x6E" "b \<noteq> 0x5D"
    "b \<noteq> 0x7D" "\<not> is_ws b"
    using b by (auto simp: is_ws_def)
  have "takeWhile num_char (l @ r) = l \<and> dropWhile num_char (l @ r) = r" if "delim r" for r
    using that assms(2) by (cases r) (auto simp: delim_def list_all_iff takeWhile_append dropWhile_append)
  moreover have "2 * length l \<le> f \<Longrightarrow> \<exists>g. f = Suc g" for f using l by (cases f) auto
  ultimately show ?thesis
    using b' assms(1) l by (fastforce simp: text_of_def asc_def)
qed

lemma text_of_lits:
  "text_of GNil (asc ''null'')" "text_of (GBool True) (asc ''true'')"
  "text_of (GBool False) (asc ''false'')"
proof -
  have "8 \<le> f \<Longrightarrow> \<exists>g. f = Suc g" "10 \<le> f \<Longrightarrow> \<exists>g. f = Suc g" for f :: nat
    by (cases f; simp)+
  then show "text_of GNil (asc ''null'')" "text_of (GBool True) (asc ''true'')"
    "text_of (GBool False) (asc ''false'')"
    by (fastforce simp: text_of_def asc_def)+
qed

lemma text_of_string: "valid_utf8 s \<Longrightarrow> text_of (GStr s) (json_string s)"
proof -
  assume "valid_utf8 s"
  moreover have "2 * length (json_string s) \<le> f \<Longrightarrow> \<exists>g. f = Suc g" for f
    by (cases f) (auto simp: json_string_def)
  ultimately show ?thesis
    by (fastforce simp: text_of_def json_string_def json_str_json_esc)
qed

lemma text_of_list:
  assumes "list_all2 text_of vs xs"
  shows "text_of (GList vs) (0x5B # sep_by 0x2C xs @ [0x5D])"
proof -
  have v: "json_val f ((0x5B # sep_by 0x2C xs @ [0x5D]) @ r) = Some (GList vs, r)"
    if f: "2 * length (0x5B # sep_by 0x2C xs @ [0x5D :: byte]) \<le> f" for f r
  proof -
    obtain g where g: "f = Suc g" using f by (cases f) auto
    show ?thesis
    proof (cases vs)
      case Nil
      with assms g show ?thesis by simp
    next
      case (Cons v vs')
      then obtain x ys where xs: "xs = x # ys" "text_of v x"
        using assms by (auto simp: list_all2_Cons1)
      then obtain c t where x: "sep_by 0x2C xs = c # t" "\<not> is_ws c" "c \<noteq> 0x5D"
        by (cases x; cases ys) (auto simp: text_of_def)
      have "json_elems g (sep_by 0x2C xs @ 0x5D # r) = Some (vs, r)"
        using f g Cons by (intro json_elems_text assms) simp_all
      with x g show ?thesis by simp
    qed
  qed
  then show ?thesis by (simp add: text_of_def)
qed

lemma text_of_map:
  assumes "list_all2 member_text kvs xs" and "distinct (map fst kvs)"
  shows "text_of (GMap kvs) (0x7B # sep_by 0x2C xs @ [0x7D])"
proof -
  have v: "json_val f ((0x7B # sep_by 0x2C xs @ [0x7D]) @ r) = Some (GMap kvs, r)"
    if f: "2 * length (0x7B # sep_by 0x2C xs @ [0x7D :: byte]) \<le> f" for f r
  proof -
    obtain g where g: "f = Suc g" using f by (cases f) auto
    show ?thesis
    proof (cases kvs)
      case Nil
      with assms g show ?thesis by simp
    next
      case (Cons kv kvs')
      then obtain x ys where xs: "xs = x # ys" "member_text kv x"
        using assms by (auto simp: list_all2_Cons1)
      then obtain t where x: "sep_by 0x2C xs = 0x22 # t"
        by (cases ys) (auto simp: member_text_def json_string_def)
      have "json_members g (sep_by 0x2C xs @ 0x7D # r) = Some (kvs, r)"
        using f g Cons by (intro json_members_text assms) simp_all
      with x g assms(2) show ?thesis by simp
    qed
  qed
  then show ?thesis by (simp add: text_of_def)
qed

lemma those_map_Some:
  "list_all2 (\<lambda>v x. g v = Some x) vs xs \<longleftrightarrow> those (map g vs) = Some xs"
  by (induction vs arbitrary: xs) (auto simp: list_all2_Cons1 split: option.splits)

lemma list_all2_exists: "(\<And>v. v \<in> set vs \<Longrightarrow> \<exists>x. P v x) \<Longrightarrow> \<exists>xs. list_all2 P vs xs"
  by (induction vs) (auto simp: list_all2_Cons1)

lemma json_marshal_text: "json_plain v \<Longrightarrow> \<exists>x. json_marshal v = Some x \<and> text_of v x"
proof (induction v rule: json_marshal.induct)
  case (6 vs)
  then have "\<exists>xs. list_all2 (\<lambda>v x. json_marshal v = Some x \<and> text_of v x) vs xs"
    by (intro list_all2_exists) (auto simp: list_all_iff)
  then obtain xs where "list_all2 (\<lambda>v x. json_marshal v = Some x) vs xs" "list_all2 text_of vs xs"
    by (auto intro: list_all2_mono)
  then show ?case by (auto simp: those_map_Some intro: text_of_list)
next
  case (7 kvs)
  let ?g = "\<lambda>(k, v). map_option (\<lambda>x. json_string k @ 0x3A # x) (json_marshal v)"
  from 7 have "\<exists>xs. list_all2 (\<lambda>kv x. ?g kv = Some x \<and> member_text kv x) kvs xs"
    by (intro list_all2_exists) (fastforce simp: list_all_iff member_text_def)
  then obtain xs where "list_all2 (\<lambda>kv x. ?g kv = Some x) kvs xs" "list_all2 member_text kvs xs"
    by (auto intro: list_all2_mono)
  with 7 show ?case by (auto simp: those_map_Some intro: text_of_map)
qed (auto intro: text_of_lits text_of_string text_of_num)

theorem json_roundtrip [codec]:
  assumes "json_plain v"
  shows "\<exists>x. json_encode v = Inr x \<and> json_unmarshal x = Inr v"
proof -
  obtain x where x: "json_marshal v = Some x" "text_of v x"
    using json_marshal_text [OF assms] by blast
  have "json_val (2 * length (x @ [0x0A]) + 2) (x @ [0x0A]) = Some (v, [0x0A])"
    using x(2) by (intro text_of_val) simp_all
  with x(1) show ?thesis
    by (simp add: json_encode_def json_unmarshal_def is_ws_def del: json_val.simps length_append)
qed

section \<open>Objects\<close>

text \<open>
  The members of an object in document order, as decoding into a struct sees them; \<open>null\<close>
  leaves a struct untouched, and other values do not fit one.
\<close>

definition json_fields :: "bytes \<Rightarrow> goerr + (bytes \<times> gval) list" where
  "json_fields s =
     (case json_unmarshal s of
        Inl e \<Rightarrow> Inl e
      | Inr GNil \<Rightarrow> Inr []
      | Inr (GMap _) \<Rightarrow>
          (case json_members (2 * length s + 2) (drop 1 (skip_ws s)) of
             None \<Rightarrow> Inr []
           | Some (m, _) \<Rightarrow> Inr m)
      | Inr _ \<Rightarrow> Inl JsonError)"

text \<open>Keys match the names of a struct without regard to case; Go folds the long s too.\<close>

fun fold_key :: "bytes \<Rightarrow> bytes" where
  "fold_key [] = []"
| "fold_key (b # r) =
     (if b = 0xC5 \<and> take 1 r = [0xBF] then 0x73 # fold_key (drop 1 r)
      else if 0x41 \<le> b \<and> b \<le> 0x5A then (b + 0x20) # fold_key r
      else b # fold_key r)"

text \<open>Numbers decode into integer fields when they are literals of integers in range.\<close>

definition parse_uint :: "nat \<Rightarrow> bytes \<Rightarrow> nat option" where
  "parse_uint bits s =
     (if s \<noteq> [] \<and> list_all is_digit s then
        let n = undigits 0 (map (\<lambda>b. unat b - 48) s) in if n < 2 ^ bits then Some n else None
      else None)"

definition parse_int64 :: "bytes \<Rightarrow> int option" where
  "parse_int64 s =
     (case s of
        [] \<Rightarrow> None
      | b # r \<Rightarrow>
          if b = 0x2D then
            (case parse_uint 64 r of
               Some n \<Rightarrow> if n \<le> 2 ^ 63 then Some (- int n) else None
             | None \<Rightarrow> None)
          else map_option int (parse_uint 63 s))"

lemma dec_value: "undigits 0 (map (\<lambda>b. unat b - 48) (dec n)) = n"
proof -
  have "map (\<lambda>b. unat b - 48) (dec n) = dec_digits n"
    using dec_digits_less by (auto simp: dec_def unat_digit_byte intro!: map_idI)
  then show ?thesis by simp
qed

lemma parse_uint_dec [codec]: "n < 2 ^ k \<Longrightarrow> parse_uint k (dec n) = Some n"
  using dec_is_digit [of _ n] by (simp add: parse_uint_def dec_value list_all_iff)

lemma parse_int64_FormatInt [codec]:
  assumes "- (2 ^ 63) \<le> i" and "i < 2 ^ 63"
  shows "parse_int64 (FormatInt i) = Some i"
proof (cases "i < 0")
  case True
  then have "nat (- i) \<le> 2 ^ 63" "nat (- i) < 2 ^ 64" using assms by auto
  with True show ?thesis
    by (simp add: parse_int64_def FormatInt_def parse_uint_dec del: power.simps)
next
  case False
  then have "nat i < 2 ^ 63" using assms by simp
  moreover obtain b r where "dec (nat i) = b # r" by (cases "dec (nat i)") auto
  moreover have "b \<noteq> 0x2D" using dec_is_digit [of b "nat i"] is_digit_neq(2) calculation(2) by auto
  ultimately show ?thesis
    using False parse_uint_dec [of "nat i" 63] by (simp add: parse_int64_def FormatInt_def)
qed

lemma dec_digits_hd: "hd (dec_digits n) = 0 \<Longrightarrow> n = 0"
proof (induction n rule: dec_digits.induct)
  case (1 n)
  show ?case
  proof (cases "n div 10 = 0")
    case True
    with 1(2) show ?thesis by (subst (asm) dec_digits.simps) simp
  next
    case False
    with 1(2) have "hd (dec_digits (n div 10)) = 0"
      by (subst (asm) dec_digits.simps) simp
    with 1(1) False show ?thesis by simp
  qed
qed

lemma valid_num_dec [codec]: "valid_num (dec n)" "list_all num_char (dec n)"
proof -
  have a: "list_all is_digit (dec n)" using dec_is_digit by (auto simp: list_all_iff)
  then show "list_all num_char (dec n)" by (auto simp: list_all_iff num_char_def)
  obtain b r where d: "dec n = b # r" by (cases "dec n") auto
  have b: "is_digit b" "list_all is_digit r" using a d by simp_all
  have n: "b \<noteq> 0x2D" using b is_digit_neq by blast
  have "r = []" if "b = 0x30"
  proof -
    obtain k ks where k: "dec_digits n = k # ks" using dec_digits_nonempty by (cases "dec_digits n") auto
    have k10: "k < 10" using dec_digits_less [of k n] k by simp
    have "unat b = k + 48" using d k k10 unat_digit_byte by (auto simp: dec_def)
    with that have "k = 0" by simp
    with k have "n = 0" using dec_digits_hd [of n] by simp
    then show ?thesis using d by (subst (asm) dec_def) (simp add: dec_digits.simps)
  qed
  moreover have "dropWhile is_digit r = []" using b(2) by (simp add: list_all_iff)
  ultimately show "valid_num (dec n)"
    using d b(1) n by (simp add: valid_num_def valid_frac_def del: dropWhile_eq_Nil_conv)
qed

lemma valid_num_FormatInt [codec]: "valid_num (FormatInt i)" "list_all num_char (FormatInt i)"
proof -
  have "valid_num (0x2D # dec n)" for n
  proof -
    have "hd (dec n) \<noteq> 0x2D" using dec_is_digit [of "hd (dec n)" n] is_digit_neq(2) by auto
    with valid_num_dec(1) [of n] show ?thesis by (cases "dec n") (auto simp: valid_num_def)
  qed
  then show "valid_num (FormatInt i)" "list_all num_char (FormatInt i)"
    using valid_num_dec by (auto simp: FormatInt_def num_char_def)
qed
lemma json_fields_marshal [codec]:
  assumes "json_plain (GMap kvs)" and "kvs \<noteq> []"
  shows "\<exists>x. json_marshal (GMap kvs) = Some x \<and> json_fields x = Inr kvs"
proof -
  let ?g = "\<lambda>(k, v). map_option (\<lambda>x. json_string k @ 0x3A # x) (json_marshal v)"
  have "\<exists>xs. list_all2 (\<lambda>kv x. ?g kv = Some x \<and> member_text kv x) kvs xs"
    using assms(1) json_marshal_text
    by (intro list_all2_exists) (fastforce simp: list_all_iff member_text_def)
  then obtain xs where xs: "those (map ?g kvs) = Some xs" "list_all2 member_text kvs xs"
    by (auto simp: those_map_Some [symmetric] intro: list_all2_mono)
  let ?x = "0x7B # sep_by 0x2C xs @ [0x7D]"
  have t: "text_of (GMap kvs) ?x" using xs(2) assms(1) by (intro text_of_map) simp_all
  have "json_val (2 * length (?x @ []) + 2) (?x @ []) = Some (GMap kvs, [])"
    using t unfolding text_of_def by (simp add: delim_def del: json_val.simps)
  then have u: "json_unmarshal ?x = Inr (GMap kvs)"
    by (simp add: json_unmarshal_def del: json_val.simps)
  have "json_members (2 * length ?x + 2) (sep_by 0x2C xs @ 0x7D # []) = Some (kvs, [])"
    by (rule json_members_text [OF xs(2) assms(2)]) simp
  with u xs(1) show ?thesis
    by (simp add: json_fields_def is_ws_def del: json_members.simps)
qed

end
