(* ===== verification/Sio_Protocol.thy ===== *)
theory Sio_Protocol
  imports Engine_Protocol Go_Json
begin

text \<open>
  \<open>protocol.go\<close> and the packet type of \<open>packet.go\<close>: the unit that socket.io encoders and
  decoders exchange. Packet types are bytes, as in the source.
\<close>

abbreviation (input) PacketTypeConnect :: byte where "PacketTypeConnect \<equiv> 0"
abbreviation (input) PacketTypeDisconnect :: byte where "PacketTypeDisconnect \<equiv> 1"
abbreviation (input) PacketTypeEvent :: byte where "PacketTypeEvent \<equiv> 2"
abbreviation (input) PacketTypeAck :: byte where "PacketTypeAck \<equiv> 3"
abbreviation (input) PacketTypeError :: byte where "PacketTypeError \<equiv> 4"
abbreviation (input) PacketTypeBinaryEvent :: byte where "PacketTypeBinaryEvent \<equiv> 5"
abbreviation (input) PacketTypeBinaryAck :: byte where "PacketTypeBinaryAck \<equiv> 6"

definition sioPacketType_String :: "byte \<Rightarrow> string" where
  "sioPacketType_String p =
     (if p = PacketTypeConnect then ''CONNECT''
      else if p = PacketTypeDisconnect then ''DISCONNECT''
      else if p = PacketTypeEvent then ''EVENT''
      else if p = PacketTypeAck then ''ACK''
      else if p = PacketTypeError then ''ERROR''
      else if p = PacketTypeBinaryEvent then ''BINARY_EVENT''
      else if p = PacketTypeBinaryAck then ''BINARY_ACK''
      else ''INVALID'')"

record sioPacket =
  Type :: byte
  Namespace :: bytes
  Data :: gval
  ID :: "uint64 option"
  attachments :: goint
  buffer :: "bytes list"

definition mk_packet :: "byte \<Rightarrow> bytes \<Rightarrow> gval \<Rightarrow> uint64 option \<Rightarrow> sioPacket" where
  "mk_packet t nsp d i =
     \<lparr>Type = t, Namespace = nsp, Data = d, ID = i, attachments = 0, buffer = []\<rparr>"

lemma mk_packet_sel [simp]:
  "Type (mk_packet t nsp d i) = t" "Namespace (mk_packet t nsp d i) = nsp"
  "Data (mk_packet t nsp d i) = d" "ID (mk_packet t nsp d i) = i"
  "attachments (mk_packet t nsp d i) = 0" "buffer (mk_packet t nsp d i) = []"
  by (simp_all add: mk_packet_def)

end
