(* ===== verification/Sio_Handle.thy ===== *)
theory Sio_Handle
  imports Sio_Protocol "HOL-Library.AList"
begin

text \<open>
  \<open>callback.go\<close>, \<open>handle.go\<close> and \<open>UnmarshalArgs\<close> of \<open>parser_default.go\<close>: callbacks that
  reflection builds from functions, namespaces with their event handlers, and the table of
  pending acks. User functions are opaque: running one is a parameter \<open>run\<close> that gives its
  results, and the caller records the call. Decoding one JSON value into a Go type of the
  user's is a parameter too (\<open>into\<close>, with \<open>zero\<close> for the type's zero value). The ack table comes
  with a system of the goroutines that register callbacks and fire acks on it at the same time.
\<close>

section \<open>Callbacks\<close>

text \<open>A \<open>reflect.Value\<close> that is an argument of a callback.\<close>

datatype rvalue = RVInvalid | RVSocket bytes | RV gval

record callback =
  cb_fn :: gofunc
  cb_args :: "rtype list"

definition bad_kind :: "rtype \<Rightarrow> bool" where
  "bad_kind t \<longleftrightarrow> kind_of t \<in> {RChan, RFunc, RUnsafePointer}"

definition newCallback :: "gval \<Rightarrow> callback outcome" where
  "newCallback v =
     (case v of
        GFunc f \<Rightarrow> if list_ex bad_kind (fn_in f) then Panic else Ret \<lparr>cb_fn = f, cb_args = fn_in f\<rparr>
      | _ \<Rightarrow> Panic)"

definition isTypeSocket :: "rtype \<Rightarrow> bool" where
  "isTypeSocket t \<longleftrightarrow> t = RSocket"

text \<open>
  The values of the types that are an \<open>encoding.BinaryUnmarshaler\<close>: \<open>Bytes\<close>, \<open>time.Time\<close> and the
  user's own; \<open>unbin\<close> is \<open>UnmarshalBinary\<close> of the last two.
\<close>

definition elem_type :: "rtype \<Rightarrow> rtype" where
  "elem_type t = (case kind_of t of RPtr u \<Rightarrow> u | _ \<Rightarrow> t)"

fun binary_type :: "rtype \<Rightarrow> bool" where
  "binary_type RBytes = True"
| "binary_type RTime = True"
| "binary_type (RCustom _ _ b _) = b"
| "binary_type _ = False"

definition UnmarshalBinary :: "(rtype \<Rightarrow> bytes \<Rightarrow> goerr + gval) \<Rightarrow> rtype \<Rightarrow> bytes \<Rightarrow> goerr + gval" where
  "UnmarshalBinary unbin t b = (if t = RBytes then Inr (GBytes b) else unbin t b)"

definition zero_value :: "(rtype \<Rightarrow> gval) \<Rightarrow> rtype \<Rightarrow> gval" where
  "zero_value zero t = (if t = RBytes then GBytes [] else zero t)"

text \<open>
  The first loop of \<open>UnmarshalArgs\<close>: a slot for each argument type. A socket argument stays
  empty, a binary one takes the next attachment if there is one and keeps its zero value if not,
  any other waits for JSON. An attachment that \<open>UnmarshalBinary\<close> refuses ends the loop.
\<close>

datatype slot = SockSlot | BinSlot gval | JsonSlot rtype

fun arg_slots ::
  "(rtype \<Rightarrow> bytes \<Rightarrow> goerr + gval) \<Rightarrow> (rtype \<Rightarrow> gval) \<Rightarrow> rtype list \<Rightarrow> bytes list \<Rightarrow> goerr + slot list" where
  "arg_slots unbin zero [] bs = Inr []"
| "arg_slots unbin zero (t # ts) bs =
     (if isTypeSocket t then map_sum id ((#) SockSlot) (arg_slots unbin zero ts bs)
      else if binary_type (elem_type t) then
        (case bs of
           [] \<Rightarrow> map_sum id ((#) (BinSlot (zero_value zero (elem_type t)))) (arg_slots unbin zero ts [])
         | b # bs' \<Rightarrow>
             (case UnmarshalBinary unbin (elem_type t) b of
                Inl e \<Rightarrow> Inl e
              | Inr v \<Rightarrow> map_sum id ((#) (BinSlot v)) (arg_slots unbin zero ts bs')))
      else map_sum id ((#) (JsonSlot (elem_type t))) (arg_slots unbin zero ts bs))"

text \<open>
  \<open>json.Unmarshal(data, &argv)\<close> into the JSON slots: values in their order, null and missing
  values leave the zero value, surplus values are dropped.
\<close>

fun fill_slots ::
  "(rtype \<Rightarrow> gval \<Rightarrow> gval option) \<Rightarrow> (rtype \<Rightarrow> gval) \<Rightarrow> slot list \<Rightarrow> gval list \<Rightarrow> rvalue list option" where
  "fill_slots into zero [] vs = Some []"
| "fill_slots into zero (SockSlot # ss) vs = map_option ((#) RVInvalid) (fill_slots into zero ss vs)"
| "fill_slots into zero (BinSlot w # ss) vs = map_option ((#) (RV w)) (fill_slots into zero ss vs)"
| "fill_slots into zero (JsonSlot t # ss) [] = map_option ((#) (RV (zero t))) (fill_slots into zero ss [])"
| "fill_slots into zero (JsonSlot t # ss) (v # vs) =
     (case (if v = GNil then Some (zero t) else into t v) of
        None \<Rightarrow> None
      | Some w \<Rightarrow> map_option ((#) (RV w)) (fill_slots into zero ss vs))"

definition UnmarshalArgs ::
  "(rtype \<Rightarrow> gval \<Rightarrow> gval option) \<Rightarrow> (rtype \<Rightarrow> bytes \<Rightarrow> goerr + gval) \<Rightarrow> (rtype \<Rightarrow> gval) \<Rightarrow>
     rtype list \<Rightarrow> bytes \<Rightarrow> bytes list \<Rightarrow> goerr + rvalue list" where
  "UnmarshalArgs into unbin zero args dat buf =
     (case arg_slots unbin zero args buf of
        Inl e \<Rightarrow> Inl e
      | Inr slots \<Rightarrow>
          (case json_unmarshal dat of
             Inl e \<Rightarrow> Inl e
           | Inr v \<Rightarrow>
               (case (case v of GList vs \<Rightarrow> Some vs | GNil \<Rightarrow> Some [] | _ \<Rightarrow> None) of
                  None \<Rightarrow> Inl JsonError
                | Some vs \<Rightarrow>
                    (case fill_slots into zero slots vs of
                       None \<Rightarrow> Inl JsonError
                     | Some rs \<Rightarrow> Inr rs))))"

text \<open>
  \<open>callback.Call\<close>: the panic or the error of the unmarshaler, or the call's arguments with the
  socket put in, to which \<open>run\<close> gives the results.
\<close>

type_synonym args_unmarshaler = "rtype list \<Rightarrow> bytes \<Rightarrow> bytes list \<Rightarrow> (goerr + rvalue list) outcome"
type_synonym call = "gofunc \<times> rvalue list"

fun put_socket :: "bytes \<Rightarrow> rtype list \<Rightarrow> rvalue list \<Rightarrow> rvalue list" where
  "put_socket so (t # ts) (r # rs) = (if isTypeSocket t then RVSocket so else r) # put_socket so ts rs"
| "put_socket so _ rs = rs"

definition Call ::
  "args_unmarshaler \<Rightarrow> bytes \<Rightarrow> callback \<Rightarrow> bytes \<Rightarrow> bytes list \<Rightarrow> (goerr + call) outcome" where
  "Call au so e dat buf =
     (case au (cb_args e) dat buf of
        Panic \<Rightarrow> Panic
      | Ret (Inl err) \<Rightarrow> Ret (Inl err)
      | Ret (Inr rs) \<Rightarrow> Ret (Inr (cb_fn e, put_socket so (cb_args e) rs)))"

section \<open>Namespaces\<close>

record namespace =
  callbacks :: "bytes \<rightharpoonup> callback"
  onConnect :: "nat option"
  onDisconnect :: "nat option"
  onError :: "nat option"

definition new_namespace :: namespace where
  "new_namespace =
     \<lparr>callbacks = Map.empty, onConnect = None, onDisconnect = None, onError = None\<rparr>"

definition OnDisconnect :: "nat \<Rightarrow> namespace \<Rightarrow> namespace" where
  "OnDisconnect f e = e\<lparr>onDisconnect := Some f\<rparr>"

definition OnConnect :: "nat \<Rightarrow> namespace \<Rightarrow> namespace" where
  "OnConnect f e = e\<lparr>onConnect := Some f\<rparr>"

definition OnError :: "nat \<Rightarrow> namespace \<Rightarrow> namespace" where
  "OnError f e = e\<lparr>onError := Some f\<rparr>"

definition OnEvent :: "bytes \<Rightarrow> gval \<Rightarrow> namespace \<Rightarrow> namespace outcome" where
  "OnEvent event f e =
     (case newCallback f of
        Panic \<Rightarrow> Panic
      | Ret c \<Rightarrow> Ret (e\<lparr>callbacks := (callbacks e)(event \<mapsto> c)\<rparr>))"

text \<open>\<open>fireEvent\<close>: nothing to call for an event that has no handler.\<close>

definition fireEvent ::
  "args_unmarshaler \<Rightarrow> bytes \<Rightarrow> bytes \<Rightarrow> bytes \<Rightarrow> bytes list \<Rightarrow> namespace \<Rightarrow>
     (goerr + call option) outcome" where
  "fireEvent au so event args buf e =
     (case callbacks e event of
        None \<Rightarrow> Ret (Inr None)
      | Some fn \<Rightarrow>
          (case Call au so fn args buf of
             Panic \<Rightarrow> Panic
           | Ret r \<Rightarrow> Ret (map_sum id Some r)))"

section \<open>Pending acks\<close>

record ackHandle =
  ack_id :: uint64
  ackmap :: "uint64 \<rightharpoonup> callback"

definition new_ackHandle :: ackHandle where
  "new_ackHandle = \<lparr>ack_id = 0, ackmap = Map.empty\<rparr>"

text \<open>
  \<open>onAck\<close> adds to the counter atomically, and stores the callback in a critical section of its own;
  the counter moves on before the callback is checked. \<open>fireAck\<close> looks the callback up under the
  read lock, releases it, and takes the write lock to delete the entry; the call comes last.
\<close>

definition onAck_id :: "ackHandle \<Rightarrow> uint64 \<times> ackHandle" where
  "onAck_id a = (let i = ack_id a + 1 in (i, a\<lparr>ack_id := i\<rparr>))"

definition onAck_store :: "uint64 \<Rightarrow> gval \<Rightarrow> ackHandle \<Rightarrow> ackHandle outcome" where
  "onAck_store i f a =
     (case newCallback f of
        Panic \<Rightarrow> Panic
      | Ret c \<Rightarrow> Ret (a\<lparr>ackmap := (ackmap a)(i \<mapsto> c)\<rparr>))"

definition onAck :: "gval \<Rightarrow> ackHandle \<Rightarrow> (uint64 \<times> ackHandle) outcome" where
  "onAck f a =
     (case onAck_id a of
        (i, a1) \<Rightarrow>
          (case onAck_store i f a1 of
             Panic \<Rightarrow> Panic
           | Ret a2 \<Rightarrow> Ret (i, a2)))"

definition fireAck_lookup :: "uint64 \<Rightarrow> ackHandle \<Rightarrow> callback option" where
  "fireAck_lookup i a = ackmap a i"

definition fireAck_delete :: "uint64 \<Rightarrow> ackHandle \<Rightarrow> ackHandle" where
  "fireAck_delete i a = a\<lparr>ackmap := (ackmap a)(i := None)\<rparr>"

text \<open>A \<open>fireAck\<close> that nothing interrupts.\<close>

definition ackHandle_fireAck ::
  "args_unmarshaler \<Rightarrow> bytes \<Rightarrow> uint64 \<Rightarrow> bytes \<Rightarrow> bytes list \<Rightarrow> ackHandle \<Rightarrow>
     (goerr + call option) outcome \<times> ackHandle" where
  "ackHandle_fireAck au so i dat buf a =
     (case fireAck_lookup i a of
        None \<Rightarrow> (Ret (Inr None), a)
      | Some fn \<Rightarrow>
          (case Call au so fn dat buf of
             Panic \<Rightarrow> Panic
           | Ret r \<Rightarrow> Ret (map_sum id Some r),
           fireAck_delete i a))"

lemma onAck_newCallback:
  "onAck f a =
     (case newCallback f of
        Panic \<Rightarrow> Panic
      | Ret c \<Rightarrow> Ret (ack_id a + 1, \<lparr>ack_id = ack_id a + 1, ackmap = (ackmap a)(ack_id a + 1 \<mapsto> c)\<rparr>))"
  by (cases a) (simp add: onAck_def onAck_id_def onAck_store_def Let_def split: outcome.split)

section \<open>One-shot tables\<close>

text \<open>
  The contract of the ack table. A history registers entries under ids and fires them; the
  relations \<open>reg\<close> and \<open>fire\<close> are the table's operations and \<open>tau\<close> the steps that it does not show.
  \<open>table_trace\<close> are its histories from \<open>s0\<close> with the entries registered and the entries fired,
  oldest first.
\<close>

inductive table_trace ::
  "('s \<Rightarrow> 'i \<Rightarrow> 'c \<Rightarrow> 's \<Rightarrow> bool) \<Rightarrow> ('s \<Rightarrow> 'i \<Rightarrow> 'c \<Rightarrow> 's \<Rightarrow> bool) \<Rightarrow> ('s \<Rightarrow> 's \<Rightarrow> bool) \<Rightarrow> 's \<Rightarrow> 's \<Rightarrow>
     ('i \<times> 'c) list \<Rightarrow> ('i \<times> 'c) list \<Rightarrow> bool"
  for reg fire tau s0 where
  start: "table_trace reg fire tau s0 s0 [] []"
| register: "table_trace reg fire tau s0 s rs fs \<Longrightarrow> reg s i c s' \<Longrightarrow>
    table_trace reg fire tau s0 s' (rs @ [(i, c)]) fs"
| hit: "table_trace reg fire tau s0 s rs fs \<Longrightarrow> fire s i c s' \<Longrightarrow>
    table_trace reg fire tau s0 s' rs (fs @ [(i, c)])"
| silent: "table_trace reg fire tau s0 s rs fs \<Longrightarrow> tau s s' \<Longrightarrow> table_trace reg fire tau s0 s' rs fs"

locale one_shot_table =
  fixes pend :: "'s \<Rightarrow> 'i \<rightharpoonup> 'c" and used :: "'s \<Rightarrow> 'i set"
    and reg :: "'s \<Rightarrow> 'i \<Rightarrow> 'c \<Rightarrow> 's \<Rightarrow> bool" and fire :: "'s \<Rightarrow> 'i \<Rightarrow> 'c \<Rightarrow> 's \<Rightarrow> bool"
    and tau :: "'s \<Rightarrow> 's \<Rightarrow> bool" and s0 :: 's
  assumes start_empty: "pend s0 = Map.empty" "used s0 = {}"
    and reg_fresh: "reg s i c s' \<Longrightarrow> i \<notin> used s"
    and reg_adds: "reg s i c s' \<Longrightarrow> pend s' = (pend s)(i \<mapsto> c) \<and> used s' = insert i (used s)"
    and fire_takes: "fire s i c s' \<Longrightarrow> pend s i = Some c \<and> pend s' = (pend s)(i := None) \<and> used s' = used s"
    and tau_silent: "tau s s' \<Longrightarrow> pend s' = pend s \<and> used s' = used s"
begin

lemma trace_inv:
  "table_trace reg fire tau s0 s rs fs \<Longrightarrow>
   used s = fst ` set rs \<and> distinct (map fst rs) \<and> distinct (map fst fs) \<and> set fs \<subseteq> set rs \<and>
   (\<forall>i c. pend s i = Some c \<longleftrightarrow> (i, c) \<in> set rs - set fs)"
proof (induction rule: table_trace.induct)
  case start
  then show ?case by (simp add: start_empty)
next
  case (register s rs fs i c s')
  have f: "i \<notin> fst ` set rs" using reg_fresh [OF register.hyps(2)] register.IH by simp
  then have "i \<notin> fst ` set fs" using register.IH by force
  with f have n: "(i, d) \<notin> set rs" "(i, d) \<notin> set fs" for d by force+
  have p: "pend s' = (pend s)(i \<mapsto> c)" "used s' = insert i (used s)"
    using reg_adds [OF register.hyps(2)] by auto
  have "pend s' j = Some d \<longleftrightarrow> (j, d) \<in> set (rs @ [(i, c)]) - set fs" for j d
    using register.IH n p(1) by (cases "j = i") auto
  with register.IH f p(2) show ?case by auto
next
  case (hit s rs fs i c s')
  then have p: "pend s i = Some c" and p': "pend s' = (pend s)(i := None)" "used s' = used s"
    using fire_takes by metis+
  then have c: "(i, c) \<in> set rs" "(i, c) \<notin> set fs" using hit.IH by auto
  have u: "c' = c" if "(i, c') \<in> set rs" for c'
    using hit.IH that c(1) by (auto dest: eq_key_imp_eq_value)
  have n: "i \<notin> fst ` set fs"
  proof
    assume "i \<in> fst ` set fs"
    then obtain c' where "(i, c') \<in> set fs" by auto
    with hit.IH u c(2) show False by blast
  qed
  have "pend s' j = Some d \<longleftrightarrow> (j, d) \<in> set rs - set (fs @ [(i, c)])" for j d
    using hit.IH p' u n by (cases "j = i") auto
  with hit.IH p'(2) c n show ?case by auto
next
  case (silent s rs fs s')
  with tau_silent show ?case by metis
qed

text \<open>An entry that was fired is gone: its id is not fired again.\<close>

lemma fired_gone:
  assumes "table_trace reg fire tau s0 s rs fs" and "fire s i c s'"
  shows "i \<notin> fst ` set fs"
  using trace_inv [OF table_trace.hit [OF assms]] by auto

end

section \<open>Registering and firing at the same time\<close>

text \<open>
  Any number of goroutines that register callbacks and fire acks on one table. A registration takes
  an id and stores its callback in two steps; a fire that found a callback is under way until it
  deletes the entry and makes the call. With \<open>excl\<close> an id is not looked up while a fire of the same
  id is under way. The lists keep what was registered, found, and called, oldest first. The 64-bit
  counter does not wrap around.
\<close>

record ack_run =
  ar_table :: ackHandle
  ar_taken :: "uint64 list"
  ar_firing :: "(uint64 \<times> callback) list"
  ar_reg :: "(uint64 \<times> callback) list"
  ar_found :: "(uint64 \<times> callback) list"
  ar_called :: "(uint64 \<times> callback) list"

definition new_ack_run :: ack_run where
  "new_ack_run = \<lparr>ar_table = new_ackHandle, ar_taken = [], ar_firing = [], ar_reg = [], ar_found = [], ar_called = []\<rparr>"

definition run_take :: "ack_run \<Rightarrow> ack_run" where
  "run_take s = (case onAck_id (ar_table s) of (i, a) \<Rightarrow> s\<lparr>ar_table := a, ar_taken := i # ar_taken s\<rparr>)"

definition run_store :: "ack_run \<Rightarrow> uint64 \<Rightarrow> callback \<Rightarrow> ackHandle \<Rightarrow> ack_run" where
  "run_store s i c a = s\<lparr>ar_table := a, ar_taken := removeAll i (ar_taken s), ar_reg := ar_reg s @ [(i, c)]\<rparr>"

definition run_find :: "ack_run \<Rightarrow> uint64 \<Rightarrow> callback \<Rightarrow> ack_run" where
  "run_find s i c = s\<lparr>ar_firing := (i, c) # ar_firing s, ar_found := ar_found s @ [(i, c)]\<rparr>"

definition run_call :: "ack_run \<Rightarrow> uint64 \<Rightarrow> callback \<Rightarrow> ack_run" where
  "run_call s i c = s\<lparr>ar_table := fireAck_delete i (ar_table s), ar_firing := remove1 (i, c) (ar_firing s),
     ar_called := ar_called s @ [(i, c)]\<rparr>"

inductive ack_step :: "bool \<Rightarrow> ack_run \<Rightarrow> ack_run \<Rightarrow> bool" for excl where
  take: "ack_id (ar_table s) \<noteq> - 1 \<Longrightarrow> ack_step excl s (run_take s)"
| store: "i \<in> set (ar_taken s) \<Longrightarrow> newCallback f = Ret c \<Longrightarrow> onAck_store i f (ar_table s) = Ret a \<Longrightarrow>
    ack_step excl s (run_store s i c a)"
| find: "fireAck_lookup i (ar_table s) = Some c \<Longrightarrow> excl \<longrightarrow> i \<notin> fst ` set (ar_firing s) \<Longrightarrow>
    ack_step excl s (run_find s i c)"
| miss: "fireAck_lookup i (ar_table s) = None \<Longrightarrow> ack_step excl s s"
| call: "(i, c) \<in> set (ar_firing s) \<Longrightarrow> ack_step excl s (run_call s i c)"

lemma onAck_store_Ret:
  "newCallback f = Ret c \<Longrightarrow> onAck_store i f a = Ret a' \<Longrightarrow> a' = a\<lparr>ackmap := (ackmap a)(i \<mapsto> c)\<rparr>"
  by (simp add: onAck_store_def)

lemmas run_defs =
  run_take_def run_store_def run_find_def run_call_def onAck_id_def Let_def fireAck_lookup_def fireAck_delete_def

text \<open>The functions of the code are these steps in a row.\<close>

lemma onAck_steps:
  assumes "onAck f (ar_table s) = Ret (i, a)" and "ack_id (ar_table s) \<noteq> - 1"
  shows "\<exists>c s'. newCallback f = Ret c \<and> (ack_step excl)\<^sup>*\<^sup>* s s' \<and> ar_table s' = a \<and>
    ar_reg s' = ar_reg s @ [(i, c)] \<and> ar_firing s' = ar_firing s \<and> ar_called s' = ar_called s"
proof -
  from assms(1) obtain c where c: "newCallback f = Ret c" and i: "i = ack_id (ar_table s) + 1"
    "onAck_store i f (ar_table (run_take s)) = Ret a"
    by (auto simp: onAck_def onAck_store_def run_defs split: outcome.splits)
  have "i \<in> set (ar_taken (run_take s))" by (simp add: run_defs i)
  from ack_step.take [OF assms(2)] ack_step.store [OF this c i(2)]
  have "(ack_step excl)\<^sup>*\<^sup>* s (run_store (run_take s) i c a)" by (rule converse_rtranclp_into_rtranclp [OF _ r_into_rtranclp])
  with c show ?thesis by (intro exI [of _ c] exI [of _ "run_store (run_take s) i c a"]) (simp add: run_defs)
qed

lemma ackHandle_fireAck_steps:
  assumes "ar_firing s = []"
  shows "\<exists>s'. (ack_step excl)\<^sup>*\<^sup>* s s' \<and> ar_table s' = snd (ackHandle_fireAck au so i dat buf (ar_table s)) \<and>
    ar_firing s' = [] \<and> ar_reg s' = ar_reg s \<and>
    ar_called s' = ar_called s @ (case fireAck_lookup i (ar_table s) of None \<Rightarrow> [] | Some c \<Rightarrow> [(i, c)])"
proof (cases "fireAck_lookup i (ar_table s)")
  case None
  with assms show ?thesis by (intro exI [of _ s]) (simp add: ackHandle_fireAck_def)
next
  case (Some c)
  have "(i, c) \<in> set (ar_firing (run_find s i c))" by (simp add: run_defs)
  from ack_step.find [OF Some, of excl] ack_step.call [OF this] assms
  have "(ack_step excl)\<^sup>*\<^sup>* s (run_call (run_find s i c) i c)"
    by (intro converse_rtranclp_into_rtranclp [OF _ r_into_rtranclp]) auto
  with Some assms show ?thesis
    by (intro exI [of _ "run_call (run_find s i c) i c"]) (simp add: ackHandle_fireAck_def run_defs)
qed

section \<open>The ack table is one-shot\<close>

text \<open>
  An entry counts as taken when its fire finds it: that is where a history of the contract sees the
  fire. Taking an id and deleting the entry are silent.
\<close>

definition ids_upto :: "uint64 \<Rightarrow> uint64 set" where
  "ids_upto n = {i. 0 < i \<and> i \<le> n}"

definition run_ids :: "ack_run \<Rightarrow> bool" where
  "run_ids s \<longleftrightarrow> set (ar_taken s) \<subseteq> ids_upto (ack_id (ar_table s)) \<and>
     fst ` set (ar_reg s) = ids_upto (ack_id (ar_table s)) - set (ar_taken s) \<and>
     set (ar_firing s) \<subseteq> set (ar_reg s)"

definition run_pend :: "ack_run \<Rightarrow> uint64 \<rightharpoonup> callback" where
  "run_pend s i = (if i \<in> fst ` set (ar_firing s) then None else ackmap (ar_table s) i)"

definition run_used :: "ack_run \<Rightarrow> uint64 set" where
  "run_used s = ids_upto (ack_id (ar_table s)) - set (ar_taken s)"

definition run_reg :: "ack_run \<Rightarrow> uint64 \<Rightarrow> callback \<Rightarrow> ack_run \<Rightarrow> bool" where
  "run_reg s i c s' \<longleftrightarrow> run_ids s \<and> i \<in> set (ar_taken s) \<and>
     (\<exists>f a. newCallback f = Ret c \<and> onAck_store i f (ar_table s) = Ret a \<and> s' = run_store s i c a)"

definition run_fire :: "ack_run \<Rightarrow> uint64 \<Rightarrow> callback \<Rightarrow> ack_run \<Rightarrow> bool" where
  "run_fire s i c s' \<longleftrightarrow> fireAck_lookup i (ar_table s) = Some c \<and> i \<notin> fst ` set (ar_firing s) \<and> s' = run_find s i c"

definition run_tau :: "ack_run \<Rightarrow> ack_run \<Rightarrow> bool" where
  "run_tau s s' \<longleftrightarrow> run_ids s \<and>
     (ack_id (ar_table s) \<noteq> - 1 \<and> s' = run_take s \<or>
      (\<exists>i c. (i, c) \<in> set (ar_firing s) \<and> s' = run_call s i c))"

lemma ids_upto_next:
  assumes "n \<noteq> - 1"
  shows "ids_upto (n + 1) = insert (n + 1) (ids_upto n)" "n + 1 \<notin> ids_upto n"
proof -
  have u: "unat (n + 1) = unat n + 1"
    using assms unatSuc [of n] by (auto simp: add_eq_0_iff add.commute)
  then show "n + 1 \<notin> ids_upto n" by (simp add: ids_upto_def word_le_nat_alt)
  from u have "0 < n + 1" by (simp add: word_less_nat_alt)
  moreover have "i \<le> n + 1 \<longleftrightarrow> i = n + 1 \<or> i \<le> n" for i
    using u by (auto simp: word_le_nat_alt word_unat_eq_iff)
  ultimately show "ids_upto (n + 1) = insert (n + 1) (ids_upto n)" by (auto simp: ids_upto_def)
qed

lemma fst_remove1: "fst ` set (remove1 (i, c) xs) \<subseteq> fst ` set xs" "j \<in> fst ` set xs \<Longrightarrow> j \<noteq> i \<Longrightarrow> j \<in> fst ` set (remove1 (i, c) xs)"
  by (induction xs) auto

interpretation acks: one_shot_table run_pend run_used run_reg run_fire run_tau new_ack_run
proof
  show "run_pend new_ack_run = Map.empty" "run_used new_ack_run = {}"
    by (auto simp: run_pend_def run_used_def ids_upto_def new_ack_run_def new_ackHandle_def)
next
  fix s i c s' assume r: "run_reg s i c s'"
  then show "i \<notin> run_used s" by (simp add: run_reg_def run_used_def)
  from r have "i \<notin> fst ` set (ar_firing s)" "i \<in> ids_upto (ack_id (ar_table s))"
    by (auto simp: run_reg_def run_ids_def)
  with r show "run_pend s' = (run_pend s)(i \<mapsto> c) \<and> run_used s' = insert i (run_used s)"
    by (auto simp: run_reg_def run_pend_def run_used_def run_defs fun_eq_iff dest!: onAck_store_Ret)
next
  fix s i c s' assume "run_fire s i c s'"
  then show "run_pend s i = Some c \<and> run_pend s' = (run_pend s)(i := None) \<and> run_used s' = run_used s"
    by (auto simp: run_fire_def run_pend_def run_used_def run_defs)
next
  fix s s' assume "run_tau s s'"
  then consider "ack_id (ar_table s) \<noteq> - 1" "s' = run_take s"
    | i c where "(i, c) \<in> set (ar_firing s)" "s' = run_call s i c" by (auto simp: run_tau_def)
  then show "run_pend s' = run_pend s \<and> run_used s' = run_used s"
  proof cases
    case 1
    then show ?thesis using ids_upto_next [OF 1(1)] by (auto simp: run_pend_def run_used_def run_defs)
  next
    case 2
    then have "run_pend s' j = run_pend s j" for j
      using fst_remove1(2) [of j "ar_firing s" i c] fst_remove1(1) [of i c "ar_firing s"]
      by (cases "j = i") (force simp: run_pend_def run_defs)+
    then show ?thesis using 2 by (auto simp: run_used_def run_defs)
  qed
qed

section \<open>Properties\<close>

text \<open>What holds while fires overlap: no callback is lost, and only registered ones are called.\<close>

definition run_safe :: "ack_run \<Rightarrow> bool" where
  "run_safe s \<longleftrightarrow> run_ids s \<and> distinct (map fst (ar_reg s)) \<and> set (ar_called s) \<subseteq> set (ar_reg s) \<and>
     (\<forall>i c. ackmap (ar_table s) i = Some c \<longrightarrow> (i, c) \<in> set (ar_reg s)) \<and>
     (\<forall>i c. (i, c) \<in> set (ar_reg s) \<longrightarrow> ackmap (ar_table s) i = Some c \<or> (i, c) \<in> set (ar_called s))"

text \<open>And what holds when fires of one id do not overlap.\<close>

definition run_excl :: "ack_run \<Rightarrow> bool" where
  "run_excl s \<longleftrightarrow> (\<forall>i c. (i, c) \<in> set (ar_firing s) \<longrightarrow> ackmap (ar_table s) i = Some c) \<and>
     distinct (map fst (ar_called s @ ar_firing s)) \<and> set (ar_found s) = set (ar_called s) \<union> set (ar_firing s) \<and>
     table_trace run_reg run_fire run_tau new_ack_run s (ar_reg s) (ar_found s)"

lemma run_safe_step:
  assumes "ack_step excl s s'" and v: "run_safe s"
  shows "run_safe s'"
  using assms(1)
proof cases
  case take
  with v ids_upto_next [OF take(2)] show ?thesis
    by (auto simp: run_safe_def run_ids_def run_defs)
next
  case (store i f c a)
  have a: "a = (ar_table s)\<lparr>ackmap := (ackmap (ar_table s))(i \<mapsto> c)\<rparr>" using store by (auto dest: onAck_store_Ret)
  have i: "i \<notin> fst ` set (ar_reg s)" and ids: "run_ids s'"
    using v store(2) by (auto simp: run_safe_def run_ids_def store(1) run_defs a)
  from i have n: "(i, d) \<notin> set (ar_reg s)" for d by force
  from v ids i n show ?thesis by (auto simp: store(1) run_safe_def run_defs a)
next
  case (find i c)
  with v show ?thesis by (auto simp: run_safe_def run_ids_def run_defs)
next
  case (call i c)
  have c: "(i, c) \<in> set (ar_reg s)" using v call by (auto simp: run_safe_def run_ids_def)
  have u: "d = c" if "(i, d) \<in> set (ar_reg s)" for d
    using v that c by (auto simp: run_safe_def dest: eq_key_imp_eq_value)
  have f: "ar_reg s' = ar_reg s" "ar_called s' = ar_called s @ [(i, c)]" "ack_id (ar_table s') = ack_id (ar_table s)"
    "ar_taken s' = ar_taken s" "ackmap (ar_table s') = (ackmap (ar_table s))(i := None)"
    "set (ar_firing s') \<subseteq> set (ar_firing s)"
    using set_remove1_subset [of "(i, c)" "ar_firing s"] by (simp_all add: call(1) run_defs)
  have "run_ids s'" using v f by (simp add: run_safe_def run_ids_def) blast
  moreover have "ackmap (ar_table s') j = Some d \<or> (j, d) \<in> set (ar_called s')" if "(j, d) \<in> set (ar_reg s)" for j d
    using v that u f by (cases "j = i") (auto simp: run_safe_def)
  moreover have "(j, d) \<in> set (ar_reg s)" if "ackmap (ar_table s') j = Some d" for j d
    using v that f by (auto simp: run_safe_def split: if_splits)
  ultimately show ?thesis using v c f(1,2) by (simp add: run_safe_def)
qed (use v in simp)

lemma run_excl_step:
  assumes "ack_step True s s'" and r: "run_safe s" and v: "run_excl s"
  shows "run_excl s'"
  using assms(1)
proof cases
  case take
  then have t: "run_tau s s'" using r by (simp add: run_tau_def run_safe_def)
  have "table_trace run_reg run_fire run_tau new_ack_run s' (ar_reg s) (ar_found s)"
    using v by (intro table_trace.silent [where tau = run_tau, OF _ t]) (simp add: run_excl_def)
  with v show ?thesis by (simp add: take(1) run_excl_def run_defs)
next
  case (store i f c a)
  then have g: "run_reg s i c s'" using r by (auto simp: run_reg_def run_safe_def)
  have t: "table_trace run_reg run_fire run_tau new_ack_run s' (ar_reg s @ [(i, c)]) (ar_found s)"
    using v by (intro table_trace.register [where reg = run_reg, OF _ g]) (simp add: run_excl_def)
  have a: "a = (ar_table s)\<lparr>ackmap := (ackmap (ar_table s))(i \<mapsto> c)\<rparr>" using store by (auto dest: onAck_store_Ret)
  have "i \<notin> fst ` set (ar_reg s)" and sub: "set (ar_firing s) \<subseteq> set (ar_reg s)"
    using r store(2) by (simp_all add: run_safe_def run_ids_def)
  then have n: "(i, d) \<notin> set (ar_firing s)" for d by force
  have f: "ar_reg s' = ar_reg s @ [(i, c)]" "ar_called s' = ar_called s" "ar_firing s' = ar_firing s"
    "ar_found s' = ar_found s" "ackmap (ar_table s') = (ackmap (ar_table s))(i \<mapsto> c)"
    by (simp_all add: store(1) run_defs a)
  from v t n show ?thesis unfolding run_excl_def f by auto
next
  case (find i c)
  then have f: "run_fire s i c s'" by (simp add: run_fire_def)
  have t: "table_trace run_reg run_fire run_tau new_ack_run s (ar_reg s) (ar_found s)" using v by (simp add: run_excl_def)
  have "i \<notin> fst ` set (ar_found s)" by (rule acks.fired_gone [OF t f])
  with v find table_trace.hit [OF t f] show ?thesis by (auto simp: run_excl_def run_defs)
next
  case (call i c)
  then have t: "run_tau s s'" using r by (auto simp: run_tau_def run_safe_def)
  obtain xs ys where xs: "ar_firing s = xs @ (i, c) # ys" "(i, c) \<notin> set xs"
    using split_list_first [OF call(2)] by blast
  then have "remove1 (i, c) (ar_firing s) = xs @ ys" by (simp add: remove1_append)
  moreover have "i \<notin> fst ` set (xs @ ys)" using v xs by (auto simp: run_excl_def)
  then have "(i, d) \<notin> set xs" "(i, d) \<notin> set ys" for d by force+
  ultimately show ?thesis using v xs table_trace.silent [where tau = run_tau, OF _ t]
    by (auto simp: call(1) run_excl_def run_defs)
qed (use v in simp)

lemma ack_runs_safe: "(ack_step excl)\<^sup>*\<^sup>* new_ack_run s \<Longrightarrow> run_safe s"
proof (induction rule: rtranclp_induct)
  case base
  show ?case by (auto simp: run_safe_def run_ids_def ids_upto_def new_ack_run_def new_ackHandle_def)
next
  case (step s s')
  then show ?case by (blast intro: run_safe_step)
qed

lemma ack_runs_excl: "(ack_step True)\<^sup>*\<^sup>* new_ack_run s \<Longrightarrow> run_excl s"
proof (induction rule: rtranclp_induct)
  case base
  show ?case using table_trace.start [where ?s0.0 = new_ack_run]
    by (simp add: run_excl_def) (simp add: new_ack_run_def)
next
  case (step s s')
  then show ?case by (blast intro: run_excl_step ack_runs_safe)
qed

text \<open>
  C5. Goroutines register callbacks and fire acks on one table at the same time, before the 64-bit
  counter wraps around. Ids are never reused, only registered callbacks are called, each under its
  id, and a registered callback is pending or was called. If no id is looked up while a fire of the
  same id is under way, no callback is called twice, and exactly the registered callbacks that were
  not called are pending.
\<close>
theorem ack_at_most_once:
  assumes "(ack_step excl)\<^sup>*\<^sup>* new_ack_run s"
  shows "distinct (map fst (ar_reg s)) \<and> set (ar_called s) \<subseteq> set (ar_reg s) \<and>
    (\<forall>(i, c) \<in> set (ar_reg s). ackmap (ar_table s) i = Some c \<or> (i, c) \<in> set (ar_called s)) \<and>
    (excl \<longrightarrow> distinct (map fst (ar_called s)) \<and>
       (\<forall>i c. ackmap (ar_table s) i = Some c \<longleftrightarrow> (i, c) \<in> set (ar_reg s) - set (ar_called s)))"
proof -
  have r: "run_safe s" by (rule ack_runs_safe [OF assms])
  have "distinct (map fst (ar_called s)) \<and>
       (\<forall>i c. ackmap (ar_table s) i = Some c \<longleftrightarrow> (i, c) \<in> set (ar_reg s) - set (ar_called s))" if excl
  proof -
    have x: "run_excl s" using ack_runs_excl assms that by simp
    then have "run_pend s i = Some c \<longleftrightarrow> (i, c) \<in> set (ar_reg s) - set (ar_found s)" for i c
      using acks.trace_inv by (auto simp: run_excl_def)
    then have "(i, c) \<notin> set (ar_called s)" if "ackmap (ar_table s) i = Some c" for i c
      using x that by (force simp: run_excl_def run_pend_def split: if_splits)
    with x r show ?thesis by (auto simp: run_excl_def run_safe_def)
  qed
  with r show ?thesis by (auto simp: run_safe_def)
qed

definition fn0 :: gofunc where
  "fn0 = \<lparr>fn_id = 0, fn_in = [RString], fn_out = 0, fn_variadic = False\<rparr>"

definition cb0 :: callback where
  "cb0 = \<lparr>cb_fn = fn0, cb_args = [RString]\<rparr>"

lemma cb0_new: "newCallback (GFunc fn0) = Ret cb0"
  by (simp add: newCallback_def fn0_def cb0_def bad_kind_def)

definition one_cb :: "ack_run" where
  "one_cb = run_store (run_take new_ack_run) 1 cb0 \<lparr>ack_id = 1, ackmap = [1 \<mapsto> cb0]\<rparr>"

lemma one_cb_reach: "(ack_step excl)\<^sup>*\<^sup>* new_ack_run one_cb"
proof -
  have t: "ack_step excl new_ack_run (run_take new_ack_run)"
    by (rule ack_step.take) (simp add: new_ack_run_def new_ackHandle_def)
  have "ack_step excl (run_take new_ack_run) one_cb"
    unfolding one_cb_def by (rule ack_step.store [OF _ cb0_new])
      (simp_all add: onAck_store_def cb0_new run_defs new_ack_run_def new_ackHandle_def)
  with t show ?thesis by (rule converse_rtranclp_into_rtranclp [OF _ r_into_rtranclp])
qed

lemma one_cb_sel:
  "ar_firing one_cb = []" "ar_called one_cb = []" "ar_reg one_cb = [(1, cb0)]"
  "fireAck_lookup 1 (ar_table one_cb) = Some cb0"
  by (simp_all add: one_cb_def run_defs new_ack_run_def)

text \<open>A callback is registered, fired, and its ack repeated.\<close>
theorem ack_at_most_once_witness:
  "\<exists>s. (ack_step True)\<^sup>*\<^sup>* new_ack_run s \<and> ar_reg s = [(1, cb0)] \<and> ar_called s = [(1, cb0)] \<and>
     distinct (map fst (ar_called s)) \<and> ackmap (ar_table s) 1 = None"
proof -
  obtain s where s: "(ack_step True)\<^sup>*\<^sup>* one_cb s" "ar_firing s = []" "ar_reg s = [(1, cb0)]" "ar_called s = [(1, cb0)]"
    using ackHandle_fireAck_steps [of one_cb True undefined undefined 1 undefined undefined] one_cb_sel by auto
  obtain t where t: "(ack_step True)\<^sup>*\<^sup>* s t" "ar_firing t = []" "ar_reg t = [(1, cb0)]"
    "ar_called t = [(1, cb0)] @ (case fireAck_lookup 1 (ar_table s) of None \<Rightarrow> [] | Some c \<Rightarrow> [(1, c)])"
    using ackHandle_fireAck_steps [OF s(2), of True undefined undefined 1 undefined undefined] s by auto
  have "(ack_step True)\<^sup>*\<^sup>* new_ack_run s" using one_cb_reach s(1) by (rule rtranclp_trans)
  from ack_at_most_once [OF this] s have "fireAck_lookup 1 (ar_table s) = None"
    by (auto simp: fireAck_lookup_def)
  with t have r: "ar_called t = [(1, cb0)]" by simp
  have u: "(ack_step True)\<^sup>*\<^sup>* new_ack_run t" using \<open>(ack_step True)\<^sup>*\<^sup>* new_ack_run s\<close> t(1) by (rule rtranclp_trans)
  from ack_at_most_once [OF u] r t(3) have "ackmap (ar_table t) 1 = None" by (auto intro: ccontr)
  with u r t(3) show ?thesis by (intro exI [of _ t]) simp
qed

text \<open>
  Two acks of one id that overlap both find the callback before one of them deletes it: it is called
  twice.
\<close>

theorem overlapping_acks_call_twice:
  "\<exists>s. (ack_step False)\<^sup>*\<^sup>* new_ack_run s \<and> ar_reg s = [(1, cb0)] \<and> ar_called s = [(1, cb0), (1, cb0)]"
proof -
  let ?a = "run_find one_cb 1 cb0" and ?b = "run_find (run_find one_cb 1 cb0) 1 cb0"
  let ?c = "run_call ?b 1 cb0"
  have "ack_step False one_cb ?a" by (rule ack_step.find) (simp_all add: one_cb_sel)
  moreover have "ack_step False ?a ?b"
    by (rule ack_step.find) (simp_all add: run_find_def one_cb_sel)
  moreover have "ack_step False ?b ?c" by (rule ack_step.call) (simp add: run_defs)
  moreover have "ack_step False ?c (run_call ?c 1 cb0)" by (rule ack_step.call) (simp add: run_defs)
  ultimately have "(ack_step False)\<^sup>*\<^sup>* one_cb (run_call ?c 1 cb0)"
    by (meson converse_rtranclp_into_rtranclp r_into_rtranclp)
  with one_cb_reach have "(ack_step False)\<^sup>*\<^sup>* new_ack_run (run_call ?c 1 cb0)" by (rule rtranclp_trans)
  then show ?thesis using one_cb_sel by (intro exI [of _ "run_call ?c 1 cb0"]) (simp add: run_defs)
qed

section \<open>The arguments of a call\<close>

lemma arg_slots_args:
  "arg_slots unbin zero ts bs = Inr ss \<Longrightarrow> fill_slots into zero ss vs = Some rs \<Longrightarrow>
   length rs = length ts \<and> (\<forall>i < length ts. rs ! i = RVInvalid \<longleftrightarrow> isTypeSocket (ts ! i))"
proof (induction ts arbitrary: bs ss vs rs)
  case (Cons t ts)
  obtain r rs' bs' ss' vs' where r: "rs = r # rs'" "r = RVInvalid \<longleftrightarrow> isTypeSocket t"
    "arg_slots unbin zero ts bs' = Inr ss'" "fill_slots into zero ss' vs' = Some rs'"
  proof (cases "isTypeSocket t")
    case True
    with Cons.prems obtain ss' where "ss = SockSlot # ss'" "arg_slots unbin zero ts bs = Inr ss'" by (auto simp: map_sum_eq_Inr)
    with True Cons.prems(2) show ?thesis using that by auto
  next
    case jt: False
    show ?thesis
    proof (cases "binary_type (elem_type t)")
      case True
      with jt Cons.prems(1) obtain w bs' ss' where "ss = BinSlot w # ss'" "arg_slots unbin zero ts bs' = Inr ss'"
        by (auto simp: map_sum_eq_Inr split: list.splits sum.splits)
      with jt Cons.prems(2) show ?thesis using that by auto
    next
      case False
      with jt Cons.prems(1) obtain ss' where "ss = JsonSlot (elem_type t) # ss'" "arg_slots unbin zero ts bs = Inr ss'"
        by (auto simp: map_sum_eq_Inr)
      with jt Cons.prems(2) show ?thesis using that
        by (cases vs) (auto split: option.splits if_splits)
    qed
  qed
  from Cons.IH [OF r(3,4)] r(1,2) show ?case by (auto simp: nth_Cons split: nat.splits)
qed simp

lemma fill_slots_socket: "fill_slots into zero ss vs = Some rs \<Longrightarrow> RVSocket so \<notin> set rs"
  by (induction into zero ss vs arbitrary: rs rule: fill_slots.induct)
     (auto split: option.splits if_splits)

lemma put_socket_nth:
  "length rs = length ts \<Longrightarrow> length (put_socket so ts rs) = length ts \<and>
   (\<forall>i < length ts. put_socket so ts rs ! i = (if isTypeSocket (ts ! i) then RVSocket so else rs ! i))"
proof (induction ts arbitrary: rs)
  case (Cons t ts)
  then obtain r rs' where "rs = r # rs'" "length rs' = length ts" by (cases rs) auto
  with Cons.IH [of rs'] show ?case by (auto simp: nth_Cons split: nat.splits)
qed simp

text \<open>The parameters that take attachments, and the value the \<open>j\<close>-th of them gets.\<close>

definition bin_param :: "rtype \<Rightarrow> bool" where
  "bin_param t \<longleftrightarrow> \<not> isTypeSocket t \<and> binary_type (elem_type t)"

definition bin_value ::
  "(rtype \<Rightarrow> bytes \<Rightarrow> goerr + gval) \<Rightarrow> (rtype \<Rightarrow> gval) \<Rightarrow> bytes list \<Rightarrow> nat \<Rightarrow> rtype \<Rightarrow> goerr + gval" where
  "bin_value unbin zero bs j t =
     (if j < length bs then UnmarshalBinary unbin (elem_type t) (bs ! j) else Inr (zero_value zero (elem_type t)))"


lemma bin_value_Cons [simp]:
  "bin_value unbin zero (b # bs) 0 t = UnmarshalBinary unbin (elem_type t) b"
  "bin_value unbin zero (b # bs) (Suc j) t = bin_value unbin zero bs j t"
  "bin_value unbin zero [] j t = Inr (zero_value zero (elem_type t))"
  by (simp_all add: bin_value_def)

lemma arg_slots_bin:
  "arg_slots unbin zero ts bs = Inr ss \<Longrightarrow> fill_slots into zero ss vs = Some rs \<Longrightarrow>
   j < length (filter bin_param ts) \<Longrightarrow>
   \<exists>w. bin_value unbin zero bs j (filter bin_param ts ! j) = Inr w \<and>
     map snd (filter (\<lambda>(t, r). bin_param t) (zip ts (put_socket so ts rs))) ! j = RV w"
proof (induction ts arbitrary: bs ss vs rs j)
  case (Cons t ts)
  show ?case
  proof (cases "bin_param t")
    case True
    then obtain w ss' where w: "ss = BinSlot w # ss'" "bin_value unbin zero bs 0 t = Inr w"
      "arg_slots unbin zero ts (tl bs) = Inr ss'"
      using Cons.prems(1) by (auto simp: bin_param_def map_sum_eq_Inr split: list.splits sum.splits)
    with Cons.prems(2) obtain rs' where r: "rs = RV w # rs'" "fill_slots into zero ss' vs = Some rs'" by auto
    have n: "bin_value unbin zero bs (Suc i) u = bin_value unbin zero (tl bs) i u" for i u by (cases bs) simp_all
    from True r(1) w(2) Cons.IH [OF w(3) r(2), of "j - 1"] Cons.prems(3) show ?thesis
      by (cases j) (auto simp: n bin_param_def)
  next
    case False
    then obtain s ss' where a: "ss = s # ss'" "arg_slots unbin zero ts bs = Inr ss'"
      using Cons.prems(1) by (auto simp: bin_param_def map_sum_eq_Inr split: if_splits)
    with Cons.prems(2) obtain r rs' vs' where r: "rs = r # rs'" "fill_slots into zero ss' vs' = Some rs'"
      by (cases s; cases vs) (auto split: option.splits if_splits)
    from False r(1) Cons.IH [OF a(2) r(2), of j] Cons.prems(3) show ?thesis by auto
  qed
qed simp

lemma Call_UnmarshalArgs:
  assumes "Call (\<lambda>ts d b. Ret (UnmarshalArgs into unbin zero ts d b)) so c dat buf = Ret (Inr (f, rs))"
  obtains ss vs qs where "arg_slots unbin zero (cb_args c) buf = Inr ss" "fill_slots into zero ss vs = Some qs"
    "rs = put_socket so (cb_args c) qs" "f = cb_fn c"
  using assms by (auto simp: Call_def UnmarshalArgs_def split: sum.splits option.splits)

text \<open>
  C33. A call that \<open>UnmarshalArgs\<close> accepts has one argument per parameter: the socket exactly at
  the parameters of type \<open>Socket\<close> and a valid value at every other, so \<open>reflect\<close> never sees an
  invalid value. The parameters whose types unmarshal binary data (\<open>Bytes\<close>, \<open>time.Time\<close> and the user's
  own) take the attachments in their order, each read by its type's \<open>UnmarshalBinary\<close>, which
  accepted them all; when attachments run out they keep their zero values.
\<close>
theorem call_arguments:
  assumes "Call (\<lambda>ts d b. Ret (UnmarshalArgs into unbin zero ts d b)) so c dat buf = Ret (Inr (f, rs))"
  shows "f = cb_fn c \<and> length rs = length (cb_args c) \<and> RVInvalid \<notin> set rs \<and>
    (\<forall>i < length rs. rs ! i = RVSocket so \<longleftrightarrow> isTypeSocket (cb_args c ! i)) \<and>
    (\<forall>j < length (filter bin_param (cb_args c)).
       \<exists>w. bin_value unbin zero buf j (filter bin_param (cb_args c) ! j) = Inr w \<and>
         map snd (filter (\<lambda>(t, r). bin_param t) (zip (cb_args c) rs)) ! j = RV w)"
proof -
  from Call_UnmarshalArgs [OF assms] obtain ss vs qs where
    q: "arg_slots unbin zero (cb_args c) buf = Inr ss" "fill_slots into zero ss vs = Some qs"
    and rs: "rs = put_socket so (cb_args c) qs" "f = cb_fn c" .
  have l: "length qs = length (cb_args c)"
    and v: "\<forall>i < length (cb_args c). qs ! i = RVInvalid \<longleftrightarrow> isTypeSocket (cb_args c ! i)"
    using arg_slots_args [OF q] by auto
  have n: "qs ! i \<noteq> RVSocket so" if "i < length qs" for i using fill_slots_socket [OF q(2), of so] that by (metis nth_mem)
  have p: "length rs = length (cb_args c)"
    "\<forall>i < length (cb_args c). rs ! i = (if isTypeSocket (cb_args c ! i) then RVSocket so else qs ! i)"
    using put_socket_nth [OF l] rs by auto
  then have "rs ! i \<noteq> RVInvalid" if "i < length rs" for i using v that by auto
  then have "RVInvalid \<notin> set rs" by (metis in_set_conv_nth)
  with p n l rs(2) arg_slots_bin [OF q, of _ so] rs(1) show ?thesis by auto
qed

text \<open>An attachment that its parameter's type refuses makes the call an error.\<close>

lemma bad_attachment:
  assumes "j < length (filter bin_param ts)" and "bin_value unbin zero buf j (filter bin_param ts ! j) = Inl e"
  shows "\<exists>e'. UnmarshalArgs into unbin zero ts dat buf = Inl e'"
proof (cases "UnmarshalArgs into unbin zero ts dat buf")
  case (Inr rs)
  then obtain ss vs where "arg_slots unbin zero ts buf = Inr ss" "fill_slots into zero ss vs = Some rs"
    by (auto simp: UnmarshalArgs_def split: sum.splits option.splits)
  from arg_slots_bin [OF this assms(1), of "[]"] assms(2) show ?thesis by auto
qed simp

definition fn1 :: gofunc where
  "fn1 = \<lparr>fn_id = 1, fn_in = [RSocket, RBytes, RString, RPtr RTime], fn_out = 1, fn_variadic = False\<rparr>"

definition demo_unbin :: "rtype \<Rightarrow> bytes \<Rightarrow> goerr + gval" where
  "demo_unbin t b = (if length b = 15 then Inr (GRaw b) else Inl (Errorf ''Time.UnmarshalBinary: invalid length''))"

text \<open>A handler with a socket, a binary, a string and a time parameter.\<close>
theorem call_arguments_witness:
  "Call (\<lambda>ts d b. Ret (UnmarshalArgs (\<lambda>_ v. Some v) demo_unbin (\<lambda>_. GNil) ts d b)) (asc ''/'')
     \<lparr>cb_fn = fn1, cb_args = fn_in fn1\<rparr> (asc ''[\"x\"]'') [[7], replicate 15 1] =
     Ret (Inr (fn1, [RVSocket (asc ''/''), RV (GBytes [7]), RV (GStr (asc ''x'')), RV (GRaw (replicate 15 1))]))
   \<and> RVInvalid \<notin> set [RVSocket (asc ''/''), RV (GBytes [7]), RV (GStr (asc ''x'')), RV (GRaw (replicate 15 1))]
   \<and> filter bin_param (fn_in fn1) = [RBytes, RPtr RTime]
   \<and> bin_value demo_unbin (\<lambda>_. GNil) [[7], replicate 15 1] 1 (RPtr RTime) = Inr (GRaw (replicate 15 1))"
proof -
  have j: "json_unmarshal (asc ''[\"x\"]'') = Inr (GList [GStr (asc ''x'')])" by code_simp
  have c: "Call (\<lambda>ts d b. Ret (UnmarshalArgs (\<lambda>_ v. Some v) demo_unbin (\<lambda>_. GNil) ts d b)) (asc ''/'')
     \<lparr>cb_fn = fn1, cb_args = fn_in fn1\<rparr> (asc ''[\"x\"]'') [[7], replicate 15 1] =
     Ret (Inr (fn1, [RVSocket (asc ''/''), RV (GBytes [7]), RV (GStr (asc ''x'')), RV (GRaw (replicate 15 1))]))"
    using j by (simp add: Call_def UnmarshalArgs_def fn1_def isTypeSocket_def elem_type_def UnmarshalBinary_def demo_unbin_def)
  have b: "filter bin_param (fn_in fn1) = [RBytes, RPtr RTime]"
    by (simp add: fn1_def bin_param_def isTypeSocket_def elem_type_def)
  have v: "bin_value demo_unbin (\<lambda>_. GNil) [[7], replicate 15 1] 1 (RPtr RTime) = Inr (GRaw (replicate 15 1))"
    by (simp add: bin_value_def elem_type_def UnmarshalBinary_def demo_unbin_def)
  show ?thesis using call_arguments [OF c] c b v by (intro conjI) blast+
qed

end
