(* ===== verification/Go_Regexp.thy ===== *)
theory Go_Regexp
  imports Prelude
begin

text \<open>
  The part of \<open>regexp\<close> that \<open>parser_default.go\<close> uses: sequences of literals, character
  classes under greedy or lazy repetition, and optional literals. Go's leftmost-first match
  is the first success of backtracking in priority order, so the matcher returns the list of
  remainders in that order.
\<close>

datatype rxclass = Space | Digit | NotQuote

datatype rx = Lit byte | Star rxclass | LazyStar rxclass | Plus rxclass | Opt byte

fun in_class :: "rxclass \<Rightarrow> byte \<Rightarrow> bool" where
  "in_class Space b \<longleftrightarrow> b = 0x20 \<or> b = 0x09 \<or> b = 0x0A \<or> b = 0x0C \<or> b = 0x0D"
| "in_class Digit b \<longleftrightarrow> is_digit b"
| "in_class NotQuote b \<longleftrightarrow> b \<noteq> 0x22"

function rx_run :: "rx list \<Rightarrow> bytes \<Rightarrow> bytes list" where
  "rx_run [] s = [s]"
| "rx_run (Lit b # k) s =
     (case s of [] \<Rightarrow> [] | a # r \<Rightarrow> if a = b then rx_run k r else [])"
| "rx_run (Star c # k) s =
     (case s of
        [] \<Rightarrow> rx_run k []
      | a # r \<Rightarrow> (if in_class c a then rx_run (Star c # k) r else []) @ rx_run k s)"
| "rx_run (LazyStar c # k) s =
     (case s of
        [] \<Rightarrow> rx_run k []
      | a # r \<Rightarrow> rx_run k s @ (if in_class c a then rx_run (LazyStar c # k) r else []))"
| "rx_run (Plus c # k) s =
     (case s of [] \<Rightarrow> [] | a # r \<Rightarrow> if in_class c a then rx_run (Star c # k) r else [])"
| "rx_run (Opt b # k) s =
     (case s of
        [] \<Rightarrow> rx_run k []
      | a # r \<Rightarrow> (if a = b then rx_run k r else []) @ rx_run k s)"
  by pat_completeness auto
termination
  by (relation "measures [\<lambda>(k, s). length k, \<lambda>(k, s). length s]") auto

definition rx_match :: "rx list \<Rightarrow> bytes \<Rightarrow> bytes option" where
  "rx_match k s = (case rx_run k s of [] \<Rightarrow> None | r # _ \<Rightarrow> Some r)"

text \<open>
  \<open>FindAllSubmatch(b, -1)\<close> and \<open>ReplaceAllLiteral(b, nil)\<close> at once: the number of
  non-overlapping matches, leftmost first, and the text without them. The patterns used here
  do not match the empty string.
\<close>

function rx_remove :: "rx list \<Rightarrow> bytes \<Rightarrow> nat \<times> bytes" where
  "rx_remove k [] = (0, [])"
| "rx_remove k (b # s) =
     (case rx_match k (b # s) of
        Some r \<Rightarrow>
          if length r \<le> length s then apfst Suc (rx_remove k r)
          else apsnd ((#) b) (rx_remove k s)
      | None \<Rightarrow> apsnd ((#) b) (rx_remove k s))"
  by pat_completeness auto
termination
  by (relation "measure (\<lambda>(k, s). length s)") auto

section \<open>Lemmas\<close>

lemma in_class_lits [simp]:
  "\<not> in_class Space 0x22" "\<not> in_class Space 0x2C" "\<not> in_class Space 0x5B" "\<not> in_class Space 0x5D"
  "\<not> in_class Space 0x7B" "\<not> in_class Space 0x7D" "\<not> in_class Space 0x3A" "\<not> in_class Space 0x74"
  "\<not> in_class NotQuote 0x22"
  by simp_all

lemma rx_run_append: "rx_run (j @ k) s = concat (map (rx_run k) (rx_run j s))"
  by (induction j s rule: rx_run.induct) (auto split: list.splits)

lemma rx_run_Lits: "rx_run (map Lit l @ k) (l @ s) = rx_run k s"
  by (induction l) simp_all

text \<open>Greedy repetition takes the longest run first.\<close>

lemma rx_run_Star_longest:
  "list_all (in_class c) u \<Longrightarrow> \<not> in_class c b \<Longrightarrow>
   \<exists>rs. rx_run [Star c] (u @ b # s) = (b # s) # rs"
  by (induction u) auto

lemma rx_run_Plus_longest:
  "u \<noteq> [] \<Longrightarrow> list_all (in_class c) u \<Longrightarrow> \<not> in_class c b \<Longrightarrow>
   \<exists>rs. rx_run [Plus c] (u @ b # s) = (b # s) # rs"
  using rx_run_Star_longest by (cases u) auto

lemma rx_run_Star_skip [simp]: "\<not> in_class c b \<Longrightarrow> rx_run (Star c # k) (b # s) = rx_run k (b # s)"
  by simp

end
