(* ===== verification/Go_Url.thy ===== *)
theory Go_Url
  imports Prelude
begin

text \<open>
  \<open>net/url\<close> as far as \<open>parser_default.go\<close> uses it: the \<open>Path\<close> that \<open>url.Parse\<close> gives for a
  text that starts with a slash, or its failure. The fragment and the query are cut off, an
  authority behind a double slash is validated, escapes are decoded.
\<close>

definition unhex :: "byte \<Rightarrow> nat option" where
  "unhex b =
     (let c = unat b in
      if 48 \<le> c \<and> c \<le> 57 then Some (c - 48)
      else if 97 \<le> c \<and> c \<le> 102 then Some (c - 87)
      else if 65 \<le> c \<and> c \<le> 70 then Some (c - 55)
      else None)"

definition alnum :: "byte \<Rightarrow> bool" where
  "alnum b \<longleftrightarrow> is_digit b \<or> (0x41 \<le> b \<and> b \<le> 0x5A) \<or> (0x61 \<le> b \<and> b \<le> 0x7A)"

text \<open>\<open>unescape\<close> for paths, fragments and user names.\<close>

fun url_unescape :: "bytes \<Rightarrow> bytes option" where
  "url_unescape [] = Some []"
| "url_unescape (b # r) =
     (if b = 0x25 then
        (case r of
           h # l # r' \<Rightarrow>
             (case (unhex h, unhex l) of
                (Some x, Some y) \<Rightarrow> map_option ((#) (of_nat (x * 16 + y))) (url_unescape r')
              | _ \<Rightarrow> None)
         | _ \<Rightarrow> None)
      else map_option ((#) b) (url_unescape r))"

text \<open>\<open>unescape\<close> succeeds in host mode, or in zone mode (the part of an IPv6 host after \<open>%25\<close>).\<close>

definition host_char :: "byte \<Rightarrow> bool" where
  "host_char b \<longleftrightarrow> 0x80 \<le> b \<or> alnum b \<or> b \<in> set (asc ''!$&()*+,;=:[]<>-_.~'') \<or> b = 0x27 \<or> b = 0x22"

fun host_ok :: "bool \<Rightarrow> bytes \<Rightarrow> bool" where
  "host_ok zone [] \<longleftrightarrow> True"
| "host_ok zone (b # r) \<longleftrightarrow>
     (if b = 0x25 then
        (case r of
           h # l # r' \<Rightarrow>
             (case (unhex h, unhex l) of
                (Some x, Some y) \<Rightarrow>
                  (if zone
                   then [h, l] = [0x32, 0x35] \<or> of_nat (x * 16 + y) = (0x20 :: byte)
                        \<or> (of_nat (x * 16 + y) :: byte) < 0x80 \<and> host_char (of_nat (x * 16 + y))
                   else 8 \<le> x \<or> [h, l] = [0x32, 0x35])
                  \<and> host_ok zone r'
              | _ \<Rightarrow> False)
         | _ \<Rightarrow> False)
      else host_char b \<and> host_ok zone r)"

definition port_ok :: "bytes \<Rightarrow> bool" where
  "port_ok p \<longleftrightarrow> (case p of [] \<Rightarrow> True | c # ds \<Rightarrow> c = 0x3A \<and> list_all is_digit ds)"

text \<open>Split at the last occurrence of a byte: the text before it and from it on.\<close>

definition split_last :: "byte \<Rightarrow> bytes \<Rightarrow> (bytes \<times> bytes) option" where
  "split_last c s =
     (if c \<in> set s
      then Some (rev (tl (dropWhile (\<lambda>b. b \<noteq> c) (rev s))),
                 c # rev (takeWhile (\<lambda>b. b \<noteq> c) (rev s)))
      else None)"

text \<open>Split at the first \<open>%25\<close>.\<close>

fun split_zone :: "bytes \<Rightarrow> (bytes \<times> bytes) option" where
  "split_zone [] = None"
| "split_zone (b # r) =
     (if take 3 (b # r) = asc ''%25'' then Some ([], b # r)
      else map_option (apfst ((#) b)) (split_zone r))"

definition parse_host_ok :: "bytes \<Rightarrow> bool" where
  "parse_host_ok h \<longleftrightarrow>
     (if take 1 h = asc ''['' then
        (case split_last 0x5D h of
           None \<Rightarrow> False
         | Some (h1, h2) \<Rightarrow>
             port_ok (tl h2) \<and>
             (case split_zone h1 of
                Some (a, z) \<Rightarrow> host_ok False a \<and> host_ok True z \<and> host_ok False h2
              | None \<Rightarrow> host_ok False h))
      else
        (case split_last 0x3A h of None \<Rightarrow> True | Some (_, p) \<Rightarrow> port_ok p) \<and> host_ok False h)"

definition userinfo_char :: "byte \<Rightarrow> bool" where
  "userinfo_char b \<longleftrightarrow> alnum b \<or> b \<in> set (asc ''-._:~!$&()*+,;=%@'') \<or> b = 0x27"

definition authority_ok :: "bytes \<Rightarrow> bool" where
  "authority_ok a \<longleftrightarrow>
     (case split_last 0x40 a of
        None \<Rightarrow> parse_host_ok a
      | Some (u, h) \<Rightarrow>
          parse_host_ok (tl h) \<and> list_all userinfo_char u \<and> url_unescape u \<noteq> None)"

definition is_ctl :: "byte \<Rightarrow> bool" where
  "is_ctl b \<longleftrightarrow> b < 0x20 \<or> b = 0x7F"

definition url_path :: "bytes \<Rightarrow> bytes option" where
  "url_path raw =
     (let u = takeWhile (\<lambda>b. b \<noteq> 0x23) raw;
          frag = drop 1 (dropWhile (\<lambda>b. b \<noteq> 0x23) raw);
          rest = takeWhile (\<lambda>b. b \<noteq> 0x3F) u;
          slashes = take 3 rest \<noteq> asc ''///'' \<and> take 2 rest = asc ''//'';
          auth = takeWhile (\<lambda>b. b \<noteq> 0x2F) (drop 2 rest);
          path = (if slashes then dropWhile (\<lambda>b. b \<noteq> 0x2F) (drop 2 rest) else rest)
      in if list_ex is_ctl u then None
         else if slashes \<and> \<not> authority_ok auth then None
         else if url_unescape frag = None then None
         else url_unescape path)"

text \<open>A namespace that reads as itself: one leading slash and no special characters.\<close>

definition plain_nsp :: "bytes \<Rightarrow> bool" where
  "plain_nsp s \<longleftrightarrow>
     take 1 s = [0x2F] \<and> take 2 s \<noteq> [0x2F, 0x2F] \<and>
     list_all (\<lambda>b. b \<noteq> 0x23 \<and> b \<noteq> 0x3F \<and> b \<noteq> 0x25 \<and> b \<noteq> 0x2C \<and> \<not> is_ctl b) s"

lemma url_unescape_plain: "list_all (\<lambda>b. b \<noteq> 0x25) s \<Longrightarrow> url_unescape s = Some s"
  by (induction s) auto

lemma url_path_plain: "plain_nsp s \<Longrightarrow> url_path s = Some s"
proof -
  assume p: "plain_nsp s"
  then have c: "\<forall>b \<in> set s. b \<noteq> 0x23 \<and> b \<noteq> 0x3F \<and> b \<noteq> 0x25 \<and> \<not> is_ctl b"
    and t: "take 2 s \<noteq> asc ''//''"
    by (simp_all add: plain_nsp_def list_all_iff asc_def)
  have tw: "takeWhile (\<lambda>b. b \<noteq> 0x23) s = s" "dropWhile (\<lambda>b. b \<noteq> 0x23) s = []"
    "takeWhile (\<lambda>b. b \<noteq> 0x3F) s = s"
    using c by simp_all
  have "url_unescape s = Some s"
    using c by (intro url_unescape_plain) (simp add: list_all_iff)
  moreover have "\<not> list_ex is_ctl s" using c by (simp add: list_ex_iff)
  ultimately show ?thesis
    using t by (simp only: url_path_def Let_def tw) simp
qed

end
