(* ===== verification/Parser_Default.thy ===== *)
theory Parser_Default
  imports Sio_Protocol Go_Regexp Go_Url
begin

text \<open>
  \<open>parser_default.go\<close>: the text encoder and decoder of socket.io packets. The encoder moves
  binary arguments out into attachments and leaves placeholders behind; the decoder is a
  small state machine that holds a binary packet back until its attachments have arrived.
  \<open>Encode\<close> writes to a \<open>bytes.Buffer\<close>, whose writes do not fail, so the text is a value here.
\<close>

section \<open>Encoder\<close>

text \<open>The loop of \<open>preprocess\<close> over the arguments: placeholders and extracted buffers.\<close>

fun extract_binary :: "nat \<Rightarrow> gval list \<Rightarrow> gval list \<times> bytes list" where
  "extract_binary n [] = ([], [])"
| "extract_binary n (GBytes b # vs) =
     (let (ws, bs) = extract_binary (Suc n) vs in (GPlaceholder n # ws, b # bs))"
| "extract_binary n (v # vs) =
     (let (ws, bs) = extract_binary n vs in (v # ws, bs))"

definition preprocess :: "sioPacket \<Rightarrow> sioPacket" where
  "preprocess p =
     (let p = (if Namespace p \<noteq> [] \<and> hd (Namespace p) \<noteq> 0x2F
               then p\<lparr>Namespace := 0x2F # Namespace p\<rparr> else p);
          p = p\<lparr>attachments := 0\<rparr>;
          p = (case Data p of
                 GList d \<Rightarrow>
                   (let (ws, bs) = extract_binary 0 d
                    in p\<lparr>Data := GList ws, attachments := of_nat (length bs), buffer := bs\<rparr>)
               | _ \<Rightarrow> p)
      in if 0 < sint (attachments p) then
           (if Type p = PacketTypeEvent then p\<lparr>Type := PacketTypeBinaryEvent\<rparr>
            else if Type p = PacketTypeAck then p\<lparr>Type := PacketTypeBinaryAck\<rparr>
            else p)
         else p)"

text \<open>The text of a preprocessed packet.\<close>

definition encodeTo :: "sioPacket \<Rightarrow> goerr + bytes" where
  "encodeTo p =
     (let h = [Type p + 0x30]
            @ (if 0 < sint (attachments p) then FormatInt (sint (attachments p)) @ [0x2D] else [])
            @ (if Namespace p \<noteq> [] \<and> Namespace p \<noteq> [0x2F] then Namespace p @ [0x2C] else [])
            @ (case ID p of None \<Rightarrow> [] | Some i \<Rightarrow> dec (unat i))
      in if Data p = GNil then Inr h
         else case json_encode (Data p) of Inl e \<Rightarrow> Inl e | Inr x \<Rightarrow> Inr (h @ x))"

text \<open>\<open>Encode\<close> changes its packet in place: the changed packet, and the text and buffers.\<close>

definition Encode :: "sioPacket \<Rightarrow> sioPacket \<times> (goerr + (bytes \<times> bytes list))" where
  "Encode p =
     (let p' = preprocess p
      in (p', case encodeTo p' of Inl e \<Rightarrow> Inl e | Inr x \<Rightarrow> Inr (x, buffer p')))"

section \<open>Regular expressions\<close>

definition placeholderExp :: "rx list" where
  "placeholderExp =
     [Star Space, Lit 0x2C, Star Space, Lit 0x7B, Star Space]
     @ map Lit (asc ''\"_placeholder\"'') @ [Star Space, Lit 0x3A, Star Space]
     @ map Lit (asc ''true'') @ [Star Space, Lit 0x2C, Star Space]
     @ map Lit (asc ''\"num\"'') @ [Star Space, Lit 0x3A, Star Space, LazyStar Digit, Star Space,
     Lit 0x7D, Star Space]"

text \<open>\<open>eventExp\<close> is anchored; its group is the event name.\<close>

definition event_matches :: "bytes \<Rightarrow> (bytes \<times> bytes) list" where
  "event_matches b =
     [(take (length r1 - length r2) r1, r3).
        r1 \<leftarrow> rx_run [Lit 0x5B, Star Space, Lit 0x22] b,
        r2 \<leftarrow> rx_run [Plus NotQuote] r1,
        r3 \<leftarrow> rx_run [Lit 0x22, Star Space, Opt 0x2C] r2]"

definition extractEvent :: "bytes \<Rightarrow> (bytes \<times> bytes) option" where
  "extractEvent b =
     (case event_matches b of [] \<Rightarrow> None | (event, r) # _ \<Rightarrow> Some (event, 0x5B # r))"

text \<open>The buffer has one nil entry per placeholder; the rest of the text is the data.\<close>

definition extractAttachments :: "bytes \<Rightarrow> bytes list \<times> bytes" where
  "extractAttachments b =
     (case rx_remove placeholderExp b of (n, left) \<Rightarrow> (replicate n [], left))"

section \<open>Decoding one text message\<close>

text \<open>The attachment count up to the dash; the second component is the text after it.\<close>

fun decode_attachments :: "goint \<Rightarrow> bytes \<Rightarrow> (goint \<times> bytes) option" where
  "decode_attachments n [] = Some (n, [])"
| "decode_attachments n (b # r) =
     (if b = 0x2D then Some (n, r)
      else if b < 0x30 \<or> b > 0x39 then None
      else decode_attachments (n * 10 + ucast (b - 0x30)) r)"

fun decode_id :: "uint64 \<Rightarrow> bytes \<Rightarrow> uint64 \<times> bytes" where
  "decode_id n [] = (n, [])"
| "decode_id n (b # r) =
     (if 0x30 \<le> b \<and> b \<le> 0x39 then decode_id (n * 10 + ucast (b - 0x30)) r else (n, b # r))"

definition decode_data :: "sioPacket \<Rightarrow> bytes \<Rightarrow> goerr + sioPacket" where
  "decode_data p r =
     (if Type p = PacketTypeEvent \<or> Type p = PacketTypeAck then
        (if hd r \<noteq> 0x5B then Inl (Errorf ''data should be a list of arguments'')
         else Inr (p\<lparr>Data := GRaw r\<rparr>))
      else if Type p = PacketTypeBinaryAck \<or> Type p = PacketTypeBinaryEvent then
        (if hd r \<noteq> 0x5B then Inl (Errorf ''data should be a list of arguments'')
         else case extractAttachments r of
                (buf, left) \<Rightarrow> Inr (p\<lparr>buffer := buf, Data := GRaw left\<rparr>))
      else case json_unmarshal r of Inl e \<Rightarrow> Inl e | Inr v \<Rightarrow> Inr (p\<lparr>Data := v\<rparr>))"

text \<open>The stages after the type: each returns early when the text is used up.\<close>

definition decode_id_stage :: "sioPacket \<Rightarrow> bytes \<Rightarrow> goerr + sioPacket" where
  "decode_id_stage p r =
     (if 0x30 \<le> hd r \<and> hd r \<le> 0x39 then
        (case decode_id (ucast (hd r - 0x30)) (tl r) of
           (i, r') \<Rightarrow>
             let p = p\<lparr>ID := Some i\<rparr> in
             if r' = [] then Inr p else decode_data p r')
      else decode_data p r)"

definition decode_nsp_stage :: "sioPacket \<Rightarrow> bytes \<Rightarrow> goerr + sioPacket" where
  "decode_nsp_stage p r =
     (if hd r = 0x2F then
        (case url_path (takeWhile (\<lambda>b. b \<noteq> 0x2C) r) of
           None \<Rightarrow> Inl (Errorf ''failed to parse namespace'')
         | Some path \<Rightarrow>
             let p = p\<lparr>Namespace := path\<rparr>;
                 r' = drop 1 (dropWhile (\<lambda>b. b \<noteq> 0x2C) r)
             in if r' = [] then Inr p else decode_id_stage p r')
      else decode_id_stage p r)"

definition decode :: "bytes \<Rightarrow> goerr + sioPacket" where
  "decode s =
     (case s of
        [] \<Rightarrow> Inl ErrUnknownPacket
      | c # r \<Rightarrow>
          let b = c - 0x30 in
          if b > PacketTypeBinaryAck then Inl ErrUnknownPacket
          else let p = mk_packet b [0x2F] GNil None in
            if r = [] then Inr p
            else if b = PacketTypeBinaryEvent \<or> b = PacketTypeBinaryAck then
              (case decode_attachments 0 r of
                 None \<Rightarrow> Inl ErrUnknownPacket
               | Some (n, r') \<Rightarrow>
                   let p = p\<lparr>attachments := n\<rparr> in
                   if r' = [] then Inr p else decode_nsp_stage p r')
            else decode_nsp_stage p r)"

section \<open>The decoder's state\<close>

record defaultDecoder =
  decoded :: "sioPacket list"
  lastp :: "sioPacket option"

definition newDefaultDecoder :: defaultDecoder where
  "newDefaultDecoder = \<lparr>decoded = [], lastp = None\<rparr>"

text \<open>The channel of decoded packets holds 8; \<open>emit\<close> blocks (\<open>None\<close>) on a full one.\<close>

definition decoder_emit :: "sioPacket \<Rightarrow> defaultDecoder \<Rightarrow> defaultDecoder option" where
  "decoder_emit p d =
     (if length (decoded d) < 8 then Some (d\<lparr>decoded := decoded d @ [p], lastp := None\<rparr>)
      else None)"

text \<open>The end of \<open>Add\<close>, with \<open>p\<close> the packet that \<open>lastp\<close> points to.\<close>

definition add_done :: "sioPacket \<Rightarrow> defaultDecoder \<Rightarrow> (goerr option \<times> defaultDecoder) option" where
  "add_done p d =
     (let d = d\<lparr>lastp := Some p\<rparr> in
      if attachments p = 0 then map_option (Pair None) (decoder_emit p d) else Some (None, d))"

text \<open>
  \<open>Add\<close>: the error it returns and the new state, \<open>None\<close> when it blocks. Writing attachment
  \<open>i\<close> panics when \<open>i\<close> is not an index of the buffer.
\<close>

definition Add ::
  "byte \<Rightarrow> bytes \<Rightarrow> defaultDecoder \<Rightarrow> (goerr option \<times> defaultDecoder) option outcome" where
  "Add mt dat d =
     (if mt \<noteq> MessageTypeString then
        (case lastp d of
           None \<Rightarrow> Ret (Some (Some ErrUnknownPacket, d))
         | Some p \<Rightarrow>
             let i = of_nat (length (buffer p)) - attachments p in
             if unat i < length (buffer p)
             then Ret (add_done (p\<lparr>buffer := (buffer p)[unat i := dat],
                                   attachments := attachments p - 1\<rparr>) d)
             else Panic)
      else
        (case decode dat of
           Inl e \<Rightarrow> Ret (Some (Some e, d))
         | Inr p \<Rightarrow>
             if of_nat (length (buffer p)) \<noteq> attachments p
             then Ret (Some (Some ErrUnknownPacket, d))
             else Ret (add_done p d)))"

text \<open>\<open>socket.yield\<close>: a non-blocking receive from \<open>Decoded()\<close>.\<close>

definition yield_packet :: "defaultDecoder \<Rightarrow> sioPacket option \<times> defaultDecoder" where
  "yield_packet d =
     (case decoded d of [] \<Rightarrow> (None, d) | p # ps \<Rightarrow> (Some p, d\<lparr>decoded := ps\<rparr>))"

section \<open>ParseData\<close>

definition ParseData :: "sioPacket \<Rightarrow> goerr + (bytes \<times> bytes \<times> bytes list)" where
  "ParseData p =
     (case Data p of
        GRaw text \<Rightarrow>
          if Type p = PacketTypeBinaryEvent \<or> Type p = PacketTypeEvent then
            (case extractEvent text of
               None \<Rightarrow> Inl ErrUnknownPacket
             | Some (event, dat) \<Rightarrow>
                 Inr (event, dat, if Type p = PacketTypeBinaryEvent then buffer p else []))
          else if Type p = PacketTypeBinaryAck then Inr ([], text, buffer p)
          else if Type p = PacketTypeAck then Inr ([], text, [])
          else Inr ([], [], [])
      | _ \<Rightarrow> Inl (Errorf ''data should be bytes''))"

section \<open>Lemmas on the regular expressions\<close>

lemma rx_run_Star_sound:
  "r \<in> set (rx_run [Star c] s) \<Longrightarrow> \<exists>u. s = u @ r \<and> list_all (in_class c) u"
proof (induction s)
  case Nil
  then show ?case by simp
next
  case (Cons a s)
  then consider "r = a # s" | "in_class c a" "r \<in> set (rx_run [Star c] s)"
    by (auto split: if_splits)
  then show ?case
  proof cases
    case 1
    then show ?thesis by (intro exI [of _ "[]"]) simp
  next
    case 2
    with Cons.IH obtain u where "s = u @ r" "list_all (in_class c) u" by blast
    with 2 show ?thesis by (intro exI [of _ "a # u"]) simp
  qed
qed

text \<open>A placeholder match starts with a comma and a brace, between blanks, and the key.\<close>

abbreviation (input) placeholder_key :: bytes where
  "placeholder_key \<equiv> [0x22, 0x5F, 0x70, 0x6C, 0x61, 0x63, 0x65, 0x68, 0x6F, 0x6C, 0x64, 0x65, 0x72, 0x22]"

lemma rx_run_Lits_sound: "rx_run (map Lit l @ k) s \<noteq> [] \<Longrightarrow> \<exists>r. s = l @ r"
proof (induction l arbitrary: s)
  case (Cons b l)
  then show ?case by (cases s) (auto split: if_splits)
qed simp

lemma placeholder_match_start:
  assumes "rx_run placeholderExp s \<noteq> []"
  shows "\<exists>u v w r. s = (u @ 0x2C # v @ 0x7B # w) @ placeholder_key @ r
    \<and> list_all (in_class Space) (u @ v @ w)"
proof -
  obtain j k where k: "placeholderExp =
      [Star Space] @ [Lit 0x2C] @ [Star Space] @ [Lit 0x7B] @ [Star Space] @ j"
    and j: "j = map Lit placeholder_key @ k"
    by (simp add: placeholderExp_def asc_def)
  from assms obtain r1 r2 r3 r4 r5 where
    r1: "r1 \<in> set (rx_run [Star Space] s)" and r2: "r2 \<in> set (rx_run [Lit 0x2C] r1)"
    and r3: "r3 \<in> set (rx_run [Star Space] r2)" and r4: "r4 \<in> set (rx_run [Lit 0x7B] r3)"
    and r5: "r5 \<in> set (rx_run [Star Space] r4)" and r6: "rx_run j r5 \<noteq> []"
    unfolding k rx_run_append by (auto simp: concat_eq_Nil_conv simp del: rx_run.simps)
  from r2 have "r1 = 0x2C # r2" by (cases r1) (auto split: if_splits)
  moreover from r4 have "r3 = 0x7B # r4" by (cases r3) (auto split: if_splits)
  moreover from r6 obtain r where "r5 = placeholder_key @ r" using rx_run_Lits_sound j by blast
  moreover from rx_run_Star_sound [OF r1] rx_run_Star_sound [OF r3] rx_run_Star_sound [OF r5]
  obtain u v w where "s = u @ r1" "r2 = v @ r3" "r4 = w @ r5" "list_all (in_class Space) (u @ v @ w)"
    by auto
  ultimately have "s = (u @ 0x2C # v @ 0x7B # w) @ placeholder_key @ r" by simp
  with \<open>list_all (in_class Space) (u @ v @ w)\<close> show ?thesis by blast
qed

text \<open>
  Texts of arguments that no placeholder match can touch: the key does not occur in them and
  they do not end in a blank, a comma or an opening brace.
\<close>

fun contains :: "bytes \<Rightarrow> bytes \<Rightarrow> bool" where
  "contains k [] \<longleftrightarrow> k = []"
| "contains k (b # s) \<longleftrightarrow> take (length k) (b # s) = k \<or> contains k s"

definition inline_text :: "bytes \<Rightarrow> bool" where
  "inline_text x \<longleftrightarrow>
     x \<noteq> [] \<and> \<not> contains placeholder_key x
     \<and> last x \<noteq> 0x2C \<and> last x \<noteq> 0x7B \<and> \<not> in_class Space (last x)"

lemma contains_infix: "contains k (u @ k @ v)"
proof (induction u)
  case Nil
  have "take (length k) (k @ v) = k" by simp
  then show ?case by (cases "k @ v") (auto simp del: take_append)
qed simp

lemma append_split:
  assumes "x @ t = a @ b"
  obtains w where "a = x @ w" | y where "x = a @ y" "b = y @ t" "y \<noteq> []"
  using assms by (metis append_Nil2 append_eq_append_conv2)

lemma inline_text_no_match:
  assumes x: "inline_text x" and t: "t \<noteq> []" "hd t = 0x2C \<or> hd t = 0x5D"
  shows "rx_match placeholderExp (x @ t) = None"
proof (rule ccontr)
  assume "rx_match placeholderExp (x @ t) \<noteq> None"
  then have "rx_run placeholderExp (x @ t) \<noteq> []" by (auto simp: rx_match_def)
  then obtain u v w r where e: "x @ t = (u @ 0x2C # v @ 0x7B # w) @ placeholder_key @ r"
    and sp: "list_all (in_class Space) (u @ v @ w)"
    using placeholder_match_start by blast
  from e show False
  proof (rule append_split)
    fix z assume "u @ 0x2C # v @ 0x7B # w = x @ z"
    then have "last x \<in> set (u @ 0x2C # v @ 0x7B # w)" using x by (simp add: inline_text_def)
    with sp x show False by (auto simp: inline_text_def list_all_iff)
  next
    fix y assume y: "x = (u @ 0x2C # v @ 0x7B # w) @ y" "placeholder_key @ r = y @ t"
    from y(2) [symmetric] show False
    proof (rule append_split)
      fix z assume z: "placeholder_key = y @ z"
      with y(2) have "t = z @ r" by simp
      show False
      proof (cases z)
        case Nil
        then have "contains placeholder_key x" using contains_infix [of y _ "[]"] y(1) z by (metis append_Nil2)
        with x show False by (simp add: inline_text_def)
      next
        case (Cons c z')
        then have "c \<in> set placeholder_key" using z by (metis in_set_conv_decomp)
        then show False using Cons t \<open>t = z @ r\<close> by auto
      qed
    next
      fix z assume "y = placeholder_key @ z"
      then have "contains placeholder_key x" using contains_infix y(1) by metis
      with x show False by (simp add: inline_text_def)
    qed
  qed
qed

lemma inline_text_tl: "inline_text (b # x) \<Longrightarrow> x = [] \<or> inline_text x"
  by (auto simp: inline_text_def)

lemma rx_remove_inline:
  "inline_text x \<Longrightarrow> t \<noteq> [] \<Longrightarrow> hd t = 0x2C \<or> hd t = 0x5D \<Longrightarrow>
   rx_remove placeholderExp (x @ t) = apsnd ((@) x) (rx_remove placeholderExp t)"
proof (induction x)
  case Nil
  then show ?case by (simp add: inline_text_def)
next
  case (Cons b x)
  have "rx_match placeholderExp (b # x @ t) = None"
    using inline_text_no_match [OF Cons.prems] by simp
  with Cons inline_text_tl [OF Cons.prems(1)] show ?case
    by (auto simp: apsnd_def map_prod_def split: prod.splits)
qed

lemma rx_run_lazy_digits:
  "list_all is_digit ds \<Longrightarrow> \<not> in_class Space b \<Longrightarrow>
   rx_run [LazyStar Digit, Star Space, Lit 0x7D, Star Space] (ds @ 0x7D # b # r) = [b # r]"
proof (induction ds)
  case Nil
  then show ?case by (simp add: is_digit_def)
next
  case (Cons d ds)
  then have "\<not> in_class Space d" "d \<noteq> 0x7D" by (auto simp: is_digit_def)
  with Cons show ?case by simp
qed

lemma placeholder_match:
  assumes "\<not> in_class Space b"
  shows "rx_match placeholderExp (0x2C # placeholder_json n @ b # r) = Some (b # r)"
proof -
  have "rx_run [LazyStar Digit, Star Space, Lit 0x7D, Star Space] (dec n @ 0x7D # b # r) = [b # r]"
    using assms dec_is_digit by (intro rx_run_lazy_digits) (auto simp: list_all_iff)
  moreover obtain d ds where d: "dec n = d # ds" by (cases "dec n") auto
  moreover have "is_digit d" using dec_is_digit [of d n] d by simp
  then have "\<not> in_class Space d" by (auto simp: is_digit_def)
  ultimately have "rx_run placeholderExp (0x2C # placeholder_json n @ b # r) = [b # r]"
    by (simp add: placeholderExp_def placeholder_json_def asc_def del: in_class.simps)
  then show ?thesis by (simp add: rx_match_def)
qed

section \<open>Arguments and their texts\<close>

text \<open>The binary arguments, the others, and the text of a list of arguments.\<close>

fun is_binary :: "gval \<Rightarrow> bool" where
  "is_binary (GBytes b) = True"
| "is_binary v = False"

definition bin_args :: "gval list \<Rightarrow> bytes list" where
  "bin_args vs = [b. GBytes b \<leftarrow> vs]"

definition text_args :: "gval list \<Rightarrow> gval list" where
  "text_args vs = filter (\<lambda>v. \<not> is_binary v) vs"

definition arg_text :: "gval \<Rightarrow> bytes" where
  "arg_text v = (case json_marshal v of Some x \<Rightarrow> x | None \<Rightarrow> [])"

definition list_text :: "gval list \<Rightarrow> bytes" where
  "list_text vs = 0x5B # sep_by 0x2C (map arg_text vs) @ [0x5D, 0x0A]"

definition marshals :: "gval list \<Rightarrow> bool" where
  "marshals vs \<longleftrightarrow> list_all (\<lambda>v. json_marshal v \<noteq> None) vs"

lemma bin_text_args_simps [simp]:
  "bin_args [] = []" "text_args [] = []"
  "bin_args (GBytes b # vs) = b # bin_args vs" "text_args (GBytes b # vs) = text_args vs"
  "\<not> is_binary v \<Longrightarrow> bin_args (v # vs) = bin_args vs"
  "\<not> is_binary v \<Longrightarrow> text_args (v # vs) = v # text_args vs"
  by (cases v; simp add: bin_args_def text_args_def)+

lemma is_binary_iff: "is_binary v \<longleftrightarrow> (\<exists>b. v = GBytes b)"
  by (cases v) simp_all

lemma extract_binary_text [simp]:
  "\<not> is_binary v \<Longrightarrow> extract_binary n (v # vs) = apfst ((#) v) (extract_binary n vs)"
  by (cases v) (simp_all add: apfst_def map_prod_def split: prod.splits)

lemma extract_binary_none: "bin_args vs = [] \<Longrightarrow> extract_binary n vs = (vs, [])"
proof (induction vs)
  case (Cons v vs)
  then show ?case by (cases "is_binary v") (auto simp: is_binary_iff)
qed simp

lemma snd_extract_binary: "snd (extract_binary n vs) = bin_args vs"
proof (induction vs arbitrary: n)
  case (Cons v vs)
  then show ?case by (cases "is_binary v") (auto simp: is_binary_iff case_prod_unfold)
qed simp

lemma those_map_marshals:
  "marshals vs \<Longrightarrow> those (map json_marshal vs) = Some (map arg_text vs)"
  by (induction vs) (auto simp: marshals_def arg_text_def)

lemma json_encode_list: "marshals vs \<Longrightarrow> json_encode (GList vs) = Inr (list_text vs)"
  by (simp add: json_encode_def list_text_def those_map_marshals)

lemma marshals_extract:
  "marshals (text_args vs) \<Longrightarrow> marshals (fst (extract_binary n vs))"
proof (induction vs arbitrary: n)
  case (Cons v vs)
  then show ?case
    by (cases "is_binary v") (auto simp: is_binary_iff marshals_def case_prod_unfold Let_def)
qed simp

lemma sep_by_concat: "sep_by c (x # xs) = x @ concat (map ((#) c) xs)"
  by (induction xs arbitrary: x) auto

lemma rx_remove_placeholder:
  "\<not> in_class Space b \<Longrightarrow>
   rx_remove placeholderExp (0x2C # placeholder_json n @ b # r) =
     apfst Suc (rx_remove placeholderExp (b # r))"
  by (subst rx_remove.simps(2)) (simp add: placeholder_match del: rx_remove.simps in_class.simps)

lemma rx_remove_end: "rx_remove placeholderExp [0x5D, 0x0A] = (0, [0x5D, 0x0A])"
  by (simp add: rx_match_def placeholderExp_def asc_def)

lemma arg_text_placeholder [simp]: "arg_text (GPlaceholder n) = placeholder_json n"
  by (simp add: arg_text_def)

text \<open>Removing the placeholders of a list's tail leaves the tail of its text arguments.\<close>

definition inline_args :: "gval list \<Rightarrow> bool" where
  "inline_args vs \<longleftrightarrow> list_all (\<lambda>v. inline_text (arg_text v)) (text_args vs)"

lemma inline_text_Cons: "inline_text x \<Longrightarrow> b \<noteq> 0x22 \<Longrightarrow> inline_text (b # x)"
  by (auto simp: inline_text_def)

lemma concat_head: "\<exists>c r. concat (map ((#) 0x2C) xs) @ [0x5D, 0x0A] = c # r \<and> (c = 0x2C \<or> c = 0x5D)"
  by (cases xs) auto

lemma rx_remove_args:
  "inline_args vs \<Longrightarrow>
   rx_remove placeholderExp
     (concat (map ((#) 0x2C) (map arg_text (fst (extract_binary n vs)))) @ [0x5D, 0x0A]) =
   (length (bin_args vs), concat (map ((#) 0x2C) (map arg_text (text_args vs))) @ [0x5D, 0x0A])"
proof (induction vs arbitrary: n)
  case Nil
  then show ?case by (simp add: rx_remove_end del: rx_remove.simps)
next
  case (Cons v vs)
  show ?case
  proof (cases "is_binary v")
    case True
    then obtain b where v: "v = GBytes b" by (auto simp: is_binary_iff)
    with Cons have IH: "rx_remove placeholderExp
      (concat (map ((#) 0x2C) (map arg_text (fst (extract_binary (Suc n) vs)))) @ [0x5D, 0x0A]) =
      (length (bin_args vs), concat (map ((#) 0x2C) (map arg_text (text_args vs))) @ [0x5D, 0x0A])"
      by (simp add: inline_args_def)
    obtain c r where c: "concat (map ((#) 0x2C) (map arg_text (fst (extract_binary (Suc n) vs)))) @
      [0x5D, 0x0A] = c # r" "c = 0x2C \<or> c = 0x5D" using concat_head by blast
    then have "rx_remove placeholderExp (0x2C # placeholder_json n @ c # r) =
      apfst Suc (rx_remove placeholderExp (c # r))" by (intro rx_remove_placeholder) auto
    with v c IH show ?thesis
      by (simp add: case_prod_unfold Let_def del: rx_remove.simps)
  next
    case False
    with Cons have i: "inline_text (0x2C # arg_text v)" "inline_args vs"
      by (auto simp: inline_args_def inline_text_Cons)
    obtain c r where c: "concat (map ((#) 0x2C) (map arg_text (fst (extract_binary n vs)))) @
      [0x5D, 0x0A] = c # r" "c = 0x2C \<or> c = 0x5D" using concat_head by blast
    have "rx_remove placeholderExp ((0x2C # arg_text v) @ c # r) =
      apsnd ((@) (0x2C # arg_text v)) (rx_remove placeholderExp (c # r))"
      using c(2) by (intro rx_remove_inline i) auto
    with False c Cons.IH [OF i(2), of n] show ?thesis
      by (simp del: rx_remove.simps)
  qed
qed

text \<open>What the decoder extracts from the text of a list whose first argument is not binary.\<close>

lemma extractAttachments_list:
  assumes "\<not> is_binary v" and "inline_args (v # vs)"
  shows "extractAttachments (list_text (fst (extract_binary 0 (v # vs)))) =
    (replicate (length (bin_args vs)) [], list_text (v # text_args vs))"
proof -
  have i: "inline_text (0x5B # arg_text v)" "inline_args vs"
    using assms by (auto simp: inline_args_def inline_text_Cons)
  let ?t = "concat (map ((#) 0x2C) (map arg_text (fst (extract_binary 0 vs)))) @ [0x5D, 0x0A]"
  obtain c r where c: "?t = c # r" "c = 0x2C \<or> c = 0x5D" using concat_head by blast
  have "rx_remove placeholderExp ((0x5B # arg_text v) @ c # r) =
      apsnd ((@) (0x5B # arg_text v)) (rx_remove placeholderExp (c # r))"
    using c(2) by (intro rx_remove_inline i) auto
  with assms(1) rx_remove_args [OF i(2), of 0] c show ?thesis
    by (simp add: extractAttachments_def list_text_def sep_by_concat del: rx_remove.simps sep_by.simps)
qed

section \<open>Decoding what the encoder wrote\<close>

lemma decode_attachments_digits:
  "list_all (\<lambda>d. d < 10) ds \<Longrightarrow>
   decode_attachments (of_nat a) (map (\<lambda>d. of_nat d + 0x30) ds @ 0x2D # r) =
     Some (of_nat (undigits a ds), r)"
proof (induction ds arbitrary: a)
  case (Cons d ds)
  then have "d < 10" by simp
  moreover have "is_digit (of_nat d + 0x30)"
    using unat_digit_byte [OF \<open>d < 10\<close>] \<open>d < 10\<close> by (simp add: is_digit_unat)
  then have "of_nat d + 0x30 \<noteq> (0x2D :: byte)" by (rule is_digit_neq)
  ultimately show ?case using Cons.IH [of "a * 10 + d"] Cons.prems by simp
qed simp

lemma decode_attachments_dec [codec]:
  "decode_attachments 0 (dec n @ 0x2D # r) = Some (of_nat n, r)"
  using decode_attachments_digits [of "dec_digits n" 0 r] dec_digits_less
  by (simp add: dec_def list_all_iff)

lemma decode_id_digits:
  "list_all (\<lambda>d. d < 10) ds \<Longrightarrow> r = [] \<or> \<not> is_digit (hd r) \<Longrightarrow>
   decode_id (of_nat a) (map (\<lambda>d. of_nat d + 0x30) ds @ r) = (of_nat (undigits a ds), r)"
proof (induction ds arbitrary: a)
  case Nil
  then show ?case by (cases r) (auto simp: is_digit_def)
next
  case (Cons d ds)
  then have "d < 10" by simp
  with Cons.IH [of "a * 10 + d"] Cons.prems show ?case
    by (simp add: not_less [symmetric])
qed

lemma decode_id_stage_dec [codec]:
  assumes "r = [] \<or> \<not> is_digit (hd r)"
  shows "decode_id_stage p (dec (unat i) @ r) =
    (if r = [] then Inr (p\<lparr>ID := Some i\<rparr>) else decode_data (p\<lparr>ID := Some i\<rparr>) r)"
proof -
  obtain d ds where d: "dec_digits (unat i) = d # ds" by (cases "dec_digits (unat i)") auto
  have l: "d < 10" "list_all (\<lambda>d. d < 10) ds"
    using dec_digits_less [of _ "unat i"] d by (auto simp: list_all_iff)
  have "undigits d ds = unat i" using undigits_dec_digits [of "unat i"] d by simp
  with decode_id_digits [OF l(2) assms, of d] have
    "decode_id (of_nat d) (map (\<lambda>d. of_nat d + 0x30) ds @ r) = (i, r)" by simp
  with l(1) d show ?thesis
    by (simp add: decode_id_stage_def dec_def not_less [symmetric] Let_def)
qed

text \<open>The head of a packet after its type and attachment count.\<close>

definition nsp_text :: "bytes \<Rightarrow> bytes" where
  "nsp_text nsp = (if nsp \<noteq> [] \<and> nsp \<noteq> [0x2F] then nsp @ [0x2C] else [])"

definition id_text :: "uint64 option \<Rightarrow> bytes" where
  "id_text i = (case i of None \<Rightarrow> [] | Some i \<Rightarrow> dec (unat i))"

text \<open>Namespaces that travel unchanged, the empty one as the root.\<close>

definition good_nsp :: "bytes \<Rightarrow> bool" where
  "good_nsp nsp \<longleftrightarrow> nsp = [] \<or> plain_nsp nsp"

definition root_nsp :: "bytes \<Rightarrow> bytes" where
  "root_nsp nsp = (if nsp = [] then [0x2F] else nsp)"

lemma dec_hd: "\<exists>d r. dec n = d # r \<and> is_digit d"
  using dec_is_digit [of "hd (dec n)" n] by (cases "dec n") auto

lemma sioPacket_same [simp]:
  "Namespace p = n \<Longrightarrow> p\<lparr>Namespace := n\<rparr> = p" "ID p = i \<Longrightarrow> p\<lparr>ID := i\<rparr> = p"
  by (cases p; simp)+

lemma decode_nsp_stage_text [codec]:
  assumes "good_nsp nsp" and "Namespace p = [0x2F]" and "r \<noteq> []" and "hd r \<noteq> 0x2F"
  shows "decode_nsp_stage p (nsp_text nsp @ r) = decode_id_stage (p\<lparr>Namespace := root_nsp nsp\<rparr>) r"
proof (cases "nsp = [] \<or> nsp = [0x2F]")
  case True
  with assms show ?thesis
    by (auto simp: nsp_text_def root_nsp_def decode_nsp_stage_def)
next
  case False
  then have n: "nsp_text nsp = nsp @ [0x2C]" "root_nsp nsp = nsp" "plain_nsp nsp"
    using assms(1) by (auto simp: nsp_text_def root_nsp_def good_nsp_def)
  then have c: "\<forall>b \<in> set nsp. b \<noteq> 0x2C" "hd nsp = 0x2F" "nsp \<noteq> []"
    by (cases nsp; auto simp: plain_nsp_def list_all_iff)+
  then have "takeWhile (\<lambda>b. b \<noteq> 0x2C) (nsp @ 0x2C # r) = nsp"
    "dropWhile (\<lambda>b. b \<noteq> 0x2C) (nsp @ 0x2C # r) = 0x2C # r" by simp_all
  with n c assms(3) show ?thesis
    by (simp add: decode_nsp_stage_def url_path_plain)
qed

text \<open>The text after the type and the attachments is the head and then data or nothing.\<close>

lemma decode_head_data:
  assumes "good_nsp nsp" and "Namespace p = [0x2F]" and "ID p = None"
    and "r \<noteq> []" and "hd r \<noteq> 0x2F" and "\<not> is_digit (hd r)"
  shows "decode_nsp_stage p (nsp_text nsp @ id_text i @ r) =
    decode_data (p\<lparr>Namespace := root_nsp nsp, ID := i\<rparr>) r"
proof (cases i)
  case None
  with assms show ?thesis
    by (auto simp: id_text_def decode_nsp_stage_text decode_id_stage_def is_digit_def)
next
  case (Some j)
  obtain d t where d: "dec (unat j) = d # t" "is_digit d" using dec_hd by blast
  then have "decode_nsp_stage p (nsp_text nsp @ dec (unat j) @ r) =
    decode_id_stage (p\<lparr>Namespace := root_nsp nsp\<rparr>) (dec (unat j) @ r)"
    by (intro decode_nsp_stage_text assms) (auto simp: is_digit_def)
  with Some assms show ?thesis
    by (simp add: id_text_def decode_id_stage_dec)
qed

section \<open>Events and acks through the encoder\<close>

text \<open>
  The event and ack packets that the text format can carry: arguments that JSON can encode
  and, when some are binary, a first argument that is not binary and texts that no
  placeholder match touches.
\<close>

definition sendable :: "sioPacket \<Rightarrow> bool" where
  "sendable p \<longleftrightarrow>
     (Type p = PacketTypeEvent \<or> Type p = PacketTypeAck) \<and> good_nsp (Namespace p) \<and>
     (case Data p of
        GList vs \<Rightarrow>
          marshals (text_args vs) \<and> length (bin_args vs) \<le> max_alloc \<and>
          (bin_args vs \<noteq> [] \<longrightarrow> \<not> is_binary (hd vs) \<and> inline_args vs)
      | _ \<Rightarrow> False)"

text \<open>What the receiver gets for such a packet once all its messages have arrived.\<close>

definition wire_type :: "sioPacket \<Rightarrow> gval list \<Rightarrow> byte" where
  "wire_type p vs =
     (if bin_args vs = [] then Type p
      else if Type p = PacketTypeEvent then PacketTypeBinaryEvent else PacketTypeBinaryAck)"

definition delivered :: "sioPacket \<Rightarrow> gval list \<Rightarrow> sioPacket" where
  "delivered p vs =
     \<lparr>Type = wire_type p vs, Namespace = root_nsp (Namespace p),
      Data = GRaw (list_text (text_args vs)), ID = ID p, attachments = 0, buffer = bin_args vs\<rparr>"

definition wire_text :: "sioPacket \<Rightarrow> gval list \<Rightarrow> bytes" where
  "wire_text p vs =
     [wire_type p vs + 0x30] @ (if bin_args vs = [] then [] else dec (length (bin_args vs)) @ [0x2D])
     @ nsp_text (Namespace p) @ id_text (ID p) @ list_text (fst (extract_binary 0 vs))"

lemma good_nsp_slash: "good_nsp n \<Longrightarrow> n \<noteq> [] \<Longrightarrow> hd n = 0x2F"
  by (cases n) (auto simp: good_nsp_def plain_nsp_def)

lemma max_alloc_le: "n \<le> max_alloc \<Longrightarrow> n \<le> 2 ^ 50"
  by (simp add: max_alloc_def)

lemma preprocess_list:
  assumes "sendable p" and "Data p = GList vs"
  shows "preprocess p = p\<lparr>Type := wire_type p vs, Data := GList (fst (extract_binary 0 vs)),
    attachments := of_nat (length (bin_args vs)), buffer := bin_args vs\<rparr>"
proof -
  have k: "length (bin_args vs) \<le> max_alloc" and n: "good_nsp (Namespace p)"
    and t: "Type p = PacketTypeEvent \<or> Type p = PacketTypeAck"
    using assms by (auto simp: sendable_def)
  have "\<not> (Namespace p \<noteq> [] \<and> hd (Namespace p) \<noteq> 0x2F)"
    using good_nsp_slash [OF n] by blast
  moreover have "sint (of_nat (length (bin_args vs)) :: goint) = int (length (bin_args vs))"
    by (rule sint_of_nat_goint [OF max_alloc_le [OF k]])
  ultimately show ?thesis
    using t assms(2) snd_extract_binary [of 0 vs]
    by (auto simp: preprocess_def wire_type_def case_prod_unfold Let_def)
qed

theorem Encode_list:
  assumes "sendable p" and "Data p = GList vs"
  shows "Encode p = (preprocess p, Inr (wire_text p vs, bin_args vs))"
proof -
  have k: "length (bin_args vs) \<le> max_alloc" and m: "marshals (text_args vs)"
    using assms by (auto simp: sendable_def)
  have s: "sint (of_nat (length (bin_args vs)) :: goint) = int (length (bin_args vs))"
    by (rule sint_of_nat_goint [OF max_alloc_le [OF k]])
  have j: "json_encode (GList (fst (extract_binary 0 vs))) = Inr (list_text (fst (extract_binary 0 vs)))"
    by (intro json_encode_list marshals_extract m)
  show ?thesis
    unfolding Encode_def preprocess_list [OF assms] encodeTo_def wire_text_def Let_def
    using s j by (auto simp: FormatInt_def nsp_text_def id_text_def)
qed

lemma list_text_head [simp]: "list_text vs \<noteq> []" "hd (list_text vs) = 0x5B"
  by (simp_all add: list_text_def)

lemma decode_wire_text:
  assumes "sendable p" and "Data p = GList vs"
  shows "decode (wire_text p vs) = Inr ((delivered p vs)
    \<lparr>attachments := of_nat (length (bin_args vs)), buffer := replicate (length (bin_args vs)) []\<rparr>)"
proof -
  let ?r = "list_text (fst (extract_binary 0 vs))" and ?k = "length (bin_args vs)"
  have n: "good_nsp (Namespace p)" and t: "Type p = PacketTypeEvent \<or> Type p = PacketTypeAck"
    and b: "bin_args vs \<noteq> [] \<longrightarrow> \<not> is_binary (hd vs) \<and> inline_args vs"
    using assms by (auto simp: sendable_def)
  have nz: "?r \<noteq> []" "hd ?r \<noteq> 0x2F" "\<not> is_digit (hd ?r)" by simp_all
  have h: "Namespace q = [0x2F] \<Longrightarrow> ID q = None \<Longrightarrow>
      decode_nsp_stage q (nsp_text (Namespace p) @ id_text (ID p) @ ?r) =
      decode_data (q\<lparr>Namespace := root_nsp (Namespace p), ID := ID p\<rparr>) ?r" for q
    using decode_head_data [OF n _ _ nz] by blast
  show ?thesis
  proof (cases "bin_args vs = []")
    case True
    have "text_args vs = vs" using True by (induction vs) (auto simp: bin_args_def text_args_def is_binary_iff)
    with True t extract_binary_none [OF True, of 0] show ?thesis
      by (auto simp: wire_text_def decode_def wire_type_def decode_data_def delivered_def Let_def
          h [unfolded extract_binary_none [OF True] fst_conv])
  next
    case False
    then obtain v ws where v: "vs = v # ws" by (cases vs) auto
    with False b have nb: "\<not> is_binary v" "inline_args (v # ws)" by auto
    have x: "extractAttachments ?r = (replicate ?k [], list_text (text_args vs))"
      using extractAttachments_list [OF nb] nb(1) v by simp
    have a: "decode_attachments 0 (dec ?k @ 0x2D # z) = Some (of_nat ?k, z)" for z
      by (rule decode_attachments_dec)
    from False t x show ?thesis
      by (auto simp: wire_text_def decode_def wire_type_def h a decode_data_def delivered_def Let_def)
  qed
qed

section \<open>The decoder over a sequence of messages\<close>

text \<open>
  What the message handlers of server and client do with each message: \<open>Add\<close>, then one
  non-blocking receive. The errors and the packets in their order; \<open>None\<close> when an \<open>Add\<close> blocks.
\<close>

fun feed :: "(byte \<times> bytes) list \<Rightarrow> defaultDecoder \<Rightarrow>
    (goerr list \<times> sioPacket list \<times> defaultDecoder) option outcome" where
  "feed [] d = Ret (Some ([], [], d))"
| "feed ((mt, dat) # ms) d =
     (case Add mt dat d of
        Panic \<Rightarrow> Panic
      | Ret None \<Rightarrow> Ret None
      | Ret (Some (e, d1)) \<Rightarrow>
          (case yield_packet d1 of (q, d2) \<Rightarrow>
             (case feed ms d2 of
                Panic \<Rightarrow> Panic
              | Ret None \<Rightarrow> Ret None
              | Ret (Some (es, qs, d3)) \<Rightarrow>
                  Ret (Some (case_option [] (\<lambda>e. [e]) e @ es, case_option [] (\<lambda>q. [q]) q @ qs, d3)))))"

definition messages :: "bytes \<Rightarrow> bytes list \<Rightarrow> (byte \<times> bytes) list" where
  "messages b bin = (MessageTypeString, b) # map (Pair MessageTypeBinary) bin"

lemma Add_attachment:
  assumes "length bs + Suc m \<le> max_alloc"
    and "lastp d = Some (p\<lparr>attachments := of_nat (Suc m), buffer := bs @ replicate (Suc m) []\<rparr>)"
  shows "Add MessageTypeBinary b d =
    Ret (add_done (p\<lparr>attachments := of_nat m, buffer := (bs @ [b]) @ replicate m []\<rparr>) d)"
proof -
  have "of_nat (length (bs @ replicate (Suc m) ([] :: bytes))) - of_nat (Suc m) = (of_nat (length bs) :: goint)"
    by simp
  moreover have "unat (of_nat (length bs) :: goint) = length bs"
    using assms(1) by (simp add: unat_of_nat_goint)
  moreover have "(of_nat (Suc m) :: goint) - 1 = of_nat m" by simp
  moreover have "length bs < length (bs @ replicate (Suc m) ([] :: bytes))" by simp
  ultimately show ?thesis
    using assms(2) by (cases p) (simp add: Add_def Let_def del: of_nat_Suc length_append)
qed

lemma of_nat_pos_goint: "0 < m \<Longrightarrow> m \<le> max_alloc \<Longrightarrow> (of_nat m :: goint) \<noteq> 0"
  by simp

lemma feed_attachments:
  assumes "cs \<noteq> []" and "length bs + length cs \<le> max_alloc"
    and "d = \<lparr>decoded = [], lastp = Some (p\<lparr>attachments := of_nat (length cs),
               buffer := bs @ replicate (length cs) []\<rparr>)\<rparr>"
  shows "feed (map (Pair MessageTypeBinary) cs) d =
    Ret (Some ([], [p\<lparr>attachments := 0, buffer := bs @ cs\<rparr>], newDefaultDecoder))"
  using assms
proof (induction cs arbitrary: bs d)
  case (Cons c cs)
  have A: "Add MessageTypeBinary c d =
    Ret (add_done (p\<lparr>attachments := of_nat (length cs), buffer := (bs @ [c]) @ replicate (length cs) []\<rparr>) d)"
    using Cons.prems by (intro Add_attachment) simp_all
  show ?case
  proof (cases "cs = []")
    case True
    with A Cons.prems(3) show ?thesis
      by (simp add: add_done_def decoder_emit_def yield_packet_def newDefaultDecoder_def)
  next
    case False
    then have nz: "(of_nat (length cs) :: goint) \<noteq> 0"
      using Cons.prems(2) by (intro of_nat_pos_goint) simp_all
    let ?d = "\<lparr>decoded = [], lastp = Some (p\<lparr>attachments := of_nat (length cs),
               buffer := (bs @ [c]) @ replicate (length cs) []\<rparr>)\<rparr>"
    have "feed (map (Pair MessageTypeBinary) cs) ?d =
      Ret (Some ([], [p\<lparr>attachments := 0, buffer := (bs @ [c]) @ cs\<rparr>], newDefaultDecoder))"
      using Cons.prems(2) False by (intro Cons.IH) simp_all
    with A nz Cons.prems(3) show ?thesis
      by (simp add: add_done_def yield_packet_def del: of_nat_goint_0)
  qed
qed simp

lemma delivered_id:
  "bin_args vs = bs \<Longrightarrow> (delivered p vs)\<lparr>attachments := 0, buffer := bs\<rparr> = delivered p vs"
  by (auto simp: delivered_def)

lemma delivered_attachments [simp]: "attachments (delivered p vs) = 0"
  by (simp add: delivered_def)

lemma feed_messages:
  assumes "sendable p" and "Data p = GList vs" and "decoded d = []"
  shows "feed (messages (wire_text p vs) (bin_args vs)) d =
    Ret (Some ([], [delivered p vs], newDefaultDecoder))"
proof -
  let ?q = "(delivered p vs)\<lparr>attachments := of_nat (length (bin_args vs)),
    buffer := replicate (length (bin_args vs)) []\<rparr>"
  have k: "length (bin_args vs) \<le> max_alloc" using assms by (auto simp: sendable_def)
  have A: "Add MessageTypeString (wire_text p vs) d = Ret (add_done ?q d)"
    using decode_wire_text [OF assms(1,2)] by (simp add: Add_def)
  show ?thesis
  proof (cases "bin_args vs = []")
    case True
    with A assms(3) delivered_id [OF True] show ?thesis
      by (simp add: messages_def add_done_def decoder_emit_def yield_packet_def newDefaultDecoder_def Let_def)
  next
    case False
    then have nz: "(of_nat (length (bin_args vs)) :: goint) \<noteq> 0"
      using k by (intro of_nat_pos_goint) simp_all
    have "feed (map (Pair MessageTypeBinary) (bin_args vs)) \<lparr>decoded = [], lastp = Some ?q\<rparr> =
      Ret (Some ([], [(delivered p vs)\<lparr>attachments := 0, buffer := [] @ bin_args vs\<rparr>], newDefaultDecoder))"
      using False k by (intro feed_attachments) simp_all
    with A nz assms(3) delivered_id [OF refl] show ?thesis
      by (cases d) (simp add: messages_def add_done_def yield_packet_def del: of_nat_goint_0)
  qed
qed

section \<open>Reading an event back\<close>

text \<open>Event names that JSON writes as they are.\<close>

definition plain_event :: "bytes \<Rightarrow> bool" where
  "plain_event e \<longleftrightarrow> e \<noteq> [] \<and> json_esc e = e \<and> 0x22 \<notin> set e"

lemma list_text_Cons:
  "list_text (v # vs) = 0x5B # arg_text v @ concat (map ((#) 0x2C) (map arg_text vs)) @ [0x5D, 0x0A]"
  by (simp add: list_text_def sep_by_concat del: sep_by.simps)

lemma list_text_tail:
  "\<exists>t. (vs = [] \<longrightarrow> t = [0x5D, 0x0A]) \<and>
       concat (map ((#) 0x2C) (map arg_text vs)) @ [0x5D, 0x0A] = (if vs = [] then t else 0x2C # t)
       \<and> list_text vs = 0x5B # t"
proof (cases vs)
  case Nil
  then show ?thesis by (simp add: list_text_def)
next
  case (Cons v ws)
  then show ?thesis by (auto simp: list_text_Cons)
qed

lemma extractEvent_list:
  assumes "json_esc e \<noteq> []" and "0x22 \<notin> set (json_esc e)"
  shows "extractEvent (list_text (GStr e # vs)) = Some (json_esc e, list_text vs)"
proof -
  obtain t where t: "vs = [] \<longrightarrow> t = [0x5D, 0x0A]" "list_text vs = 0x5B # t"
    "concat (map ((#) 0x2C) (map arg_text vs)) @ [0x5D, 0x0A] = (if vs = [] then t else 0x2C # t)"
    using list_text_tail by blast
  let ?u = "if vs = [] then t else 0x2C # t"
  have l: "list_text (GStr e # vs) = 0x5B # 0x22 # json_esc e @ 0x22 # ?u"
    using t(3) by (simp add: list_text_Cons arg_text_def json_string_def)
  obtain rs where rs: "rx_run [Plus NotQuote] (json_esc e @ 0x22 # ?u) = (0x22 # ?u) # rs"
    using rx_run_Plus_longest [of "json_esc e" NotQuote "0x22" ?u] assms
    by (auto simp: list_all_iff)
  have "\<exists>rs. rx_run [Lit 0x22, Star Space, Opt 0x2C] (0x22 # ?u) = t # rs"
    using t(1) by (cases "vs = []") auto
  then obtain rs' where rs': "rx_run [Lit 0x22, Star Space, Opt 0x2C] (0x22 # ?u) = t # rs'" by blast
  have "rx_run [Lit 0x5B, Star Space, Lit 0x22] (list_text (GStr e # vs)) = [json_esc e @ 0x22 # ?u]"
    by (simp add: l)
  then have "\<exists>ms. event_matches (list_text (GStr e # vs)) = (json_esc e, t) # ms"
    using rs rs' by (simp add: event_matches_def del: rx_run.simps)
  with t(2) show ?thesis by (auto simp: extractEvent_def)
qed

lemma ParseData_event:
  assumes "plain_event e" and "Type p = PacketTypeEvent"
  shows "ParseData (delivered p (GStr e # vs)) = Inr (e, list_text (text_args vs), bin_args vs)"
  using assms by (auto simp: ParseData_def delivered_def wire_type_def extractEvent_list plain_event_def)

lemma ParseData_ack:
  "Type p = PacketTypeAck \<Longrightarrow>
   ParseData (delivered p vs) = Inr ([], list_text (text_args vs), bin_args vs)"
  by (auto simp: ParseData_def delivered_def wire_type_def)

lemma json_unmarshal_list_text:
  assumes "list_all json_plain vs"
  shows "json_unmarshal (list_text vs) = Inr (GList vs)"
proof -
  have "marshals vs" using assms json_marshal_text by (fastforce simp: marshals_def list_all_iff)
  moreover obtain x where "json_encode (GList vs) = Inr x" "json_unmarshal x = Inr (GList vs)"
    using json_roundtrip [of "GList vs"] assms by auto
  ultimately show ?thesis by (simp add: json_encode_list)
qed

section \<open>The decoder's invariant\<close>

text \<open>A packet that waits for attachments has a place in its buffer for each of them.\<close>

definition dec_inv :: "defaultDecoder \<Rightarrow> bool" where
  "dec_inv d \<longleftrightarrow>
     (case lastp d of
        None \<Rightarrow> True
      | Some p \<Rightarrow> 0 < unat (attachments p) \<and> unat (attachments p) \<le> length (buffer p)
                  \<and> length (buffer p) \<le> max_alloc)"

lemma rx_remove_count: "fst (rx_remove k s) \<le> length s"
  by (induction k s rule: rx_remove.induct) (auto split: option.splits)

lemma decode_data_buffer:
  "decode_data p r = Inr q \<Longrightarrow> buffer p = [] \<Longrightarrow> length (buffer q) \<le> length r"
  using rx_remove_count [of placeholderExp r]
  by (auto simp: decode_data_def extractAttachments_def split: if_splits prod.splits sum.splits)

lemma decode_id_length: "decode_id n r = (i, r') \<Longrightarrow> length r' \<le> length r"
  by (induction n r rule: decode_id.induct) (auto split: if_splits)

lemma decode_attachments_length: "decode_attachments n r = Some (i, r') \<Longrightarrow> length r' \<le> length r"
  by (induction n r rule: decode_attachments.induct) (auto split: if_splits)

lemma decode_id_stage_buffer:
  assumes "decode_id_stage p r = Inr q" and "buffer p = []"
  shows "length (buffer q) \<le> length r"
proof (cases "0x30 \<le> hd r \<and> hd r \<le> 0x39")
  case True
  obtain i r' where i: "decode_id (ucast (hd r - 0x30)) (tl r) = (i, r')" by fastforce
  then have "length r' \<le> length r" using decode_id_length [OF i] by simp
  with assms True i show ?thesis
    by (auto simp: decode_id_stage_def Let_def split: if_splits dest!: decode_data_buffer)
next
  case False
  with assms show ?thesis
    by (auto simp: decode_id_stage_def dest!: decode_data_buffer)
qed

lemma decode_nsp_stage_buffer:
  assumes "decode_nsp_stage p r = Inr q" and "buffer p = []"
  shows "length (buffer q) \<le> length r"
proof -
  have "length (drop 1 (dropWhile (\<lambda>b. b \<noteq> 0x2C) r)) \<le> length r"
    using length_dropWhile_le [of "\<lambda>b. b \<noteq> 0x2C" r] by simp
  with assms show ?thesis
    by (auto simp: decode_nsp_stage_def Let_def split: if_splits option.splits
        dest!: decode_id_stage_buffer simp del: length_drop)
qed

lemma decode_buffer: "decode s = Inr p \<Longrightarrow> length (buffer p) \<le> length s"
  by (auto simp: decode_def Let_def split: list.splits if_splits option.splits
      dest!: decode_nsp_stage_buffer decode_attachments_length)

end
