(* ===== verification/Parser_Wire.thy ===== *)
theory Parser_Wire
  imports Parser_Default
begin

text \<open>
  What the default parser promises on the wire: events, acks and control packets that one
  peer encodes are the packets the other peer's decoder delivers, whatever partial packet the
  decoder held before; and the decoder survives every sequence of messages.
\<close>

section \<open>Every sequence of messages\<close>

lemma Add_ok [inv]:
  assumes i: "dec_inv d" and e: "decoded d = []" and l: "length dat \<le> max_alloc"
  shows "\<exists>e d'. Add mt dat d = Ret (Some (e, d')) \<and> dec_inv d' \<and>
    ((decoded d' = []) \<or> (\<exists>q. decoded d' = [q] \<and> attachments q = 0 \<and> e = None))"
proof (cases "mt = MessageTypeString")
  case True
  show ?thesis
  proof (cases "decode dat")
    case (Inl e)
    with True assms show ?thesis by (simp add: Add_def)
  next
    case (Inr p)
    have b: "length (buffer p) \<le> max_alloc" using decode_buffer [OF Inr] l by simp
    show ?thesis
    proof (cases "of_nat (length (buffer p)) = attachments p")
      case False
      with True Inr assms show ?thesis by (simp add: Add_def)
    next
      case at: True
      then have "unat (attachments p) = length (buffer p)" using b by (metis unat_of_nat_goint)
      with True Inr at b e show ?thesis
        by (auto simp: Add_def add_done_def decoder_emit_def dec_inv_def Let_def
            dest: arg_cong [of _ _ unat])
    qed
  qed
next
  case False
  show ?thesis
  proof (cases "lastp d")
    case None
    with False assms show ?thesis by (simp add: Add_def)
  next
    case (Some p)
    let ?a = "unat (attachments p)" and ?n = "length (buffer p)"
    have a: "0 < ?a" "?a \<le> ?n" "?n \<le> max_alloc" using i Some by (auto simp: dec_inv_def)
    have at: "attachments p = of_nat ?a" by simp
    have "of_nat ?n - attachments p = of_nat (?n - ?a)" using a(2) by (subst at) (simp add: of_nat_diff)
    then have u: "unat (of_nat ?n - attachments p) = ?n - ?a"
      using a(3) by (simp add: unat_of_nat_goint)
    have m: "attachments p - 1 = of_nat (?a - 1)" using a(1) by (subst at) (simp add: of_nat_diff)
    then have m': "unat (attachments p - 1) = ?a - 1"
      unfolding m using a by (intro unat_of_nat_goint) simp
    have "unat (of_nat ?n - attachments p) < ?n" using u a by simp
    with False Some have
      "Add mt dat d = Ret (add_done (p\<lparr>buffer := (buffer p)[?n - ?a := dat],
         attachments := attachments p - 1\<rparr>) d)"
      by (simp add: Add_def Let_def u)
    moreover have "attachments p - 1 = 0 \<longleftrightarrow> ?a = 1"
      using m' a(1) by (metis diff_is_0_eq le_antisym less_eq_Suc_le One_nat_def unat_eq_zero)
    ultimately show ?thesis
      using e a m' by (auto simp: add_done_def decoder_emit_def dec_inv_def Let_def)
  qed
qed

lemma feed_total:
  assumes "dec_inv d" and "decoded d = []" and "list_all (\<lambda>(mt, dat). length dat \<le> max_alloc) ms"
  shows "\<exists>es qs d'. feed ms d = Ret (Some (es, qs, d')) \<and> dec_inv d' \<and> decoded d' = []
    \<and> list_all (\<lambda>q. attachments q = 0) qs \<and> length es + length qs \<le> length ms"
  using assms
proof (induction ms arbitrary: d)
  case (Cons m ms)
  obtain mt dat where m: "m = (mt, dat)" by (cases m)
  with Cons.prems obtain e d1 where A: "Add mt dat d = Ret (Some (e, d1))" "dec_inv d1"
    "decoded d1 = [] \<or> (\<exists>q. decoded d1 = [q] \<and> attachments q = 0 \<and> e = None)"
    using Add_ok [of d dat mt] by auto
  obtain q d2 where y: "yield_packet d1 = (q, d2)" by fastforce
  with A have d2: "dec_inv d2" "decoded d2 = []" and
    q: "q = None \<or> (\<exists>q'. q = Some q' \<and> attachments q' = 0 \<and> e = None)"
    by (auto simp: yield_packet_def dec_inv_def split: list.splits)
  from Cons.IH [OF d2] Cons.prems(3) obtain es qs d3 where
    "feed ms d2 = Ret (Some (es, qs, d3))" "dec_inv d3" "decoded d3 = []"
    "list_all (\<lambda>q. attachments q = 0) qs" "length es + length qs \<le> length ms"
    by auto
  with m A(1) y q show ?case by (cases e) auto
qed simp

section \<open>Control packets\<close>

text \<open>Connect, disconnect and error packets: no id, and no data or a JSON value.\<close>

definition control :: "sioPacket \<Rightarrow> bool" where
  "control p \<longleftrightarrow>
     (Type p = PacketTypeConnect \<or> Type p = PacketTypeDisconnect \<or> Type p = PacketTypeError)
     \<and> good_nsp (Namespace p) \<and> ID p = None \<and> buffer p = []
     \<and> (Data p = GNil \<or>
        json_plain (Data p) \<and> \<not> is_digit (hd (arg_text (Data p))))"

lemma preprocess_control:
  assumes "control p"
  shows "preprocess p = p\<lparr>attachments := 0\<rparr>"
proof -
  have "\<not> (Namespace p \<noteq> [] \<and> hd (Namespace p) \<noteq> 0x2F)" and b: "buffer p = []"
    using assms good_nsp_slash by (auto simp: control_def)
  moreover have "extract_binary 0 vs = (vs, [])" if "Data p = GList vs" for vs
  proof (rule extract_binary_none)
    have "list_all json_plain vs" using assms that by (auto simp: control_def)
    then show "bin_args vs = []"
      by (induction vs) (auto simp: bin_args_def split: gval.splits)
  qed
  ultimately show ?thesis
    by (cases p) (auto simp: preprocess_def Let_def split: gval.splits)
qed

lemma decode_nsp_text:
  assumes "good_nsp nsp" and "t = PacketTypeConnect \<or> t = PacketTypeDisconnect \<or> t = PacketTypeError"
  shows "decode ((t + 0x30) # nsp_text nsp) = Inr (mk_packet t (root_nsp nsp) GNil None)"
proof (cases "nsp = [] \<or> nsp = [0x2F]")
  case True
  with assms(2) show ?thesis
    by (auto simp: decode_def nsp_text_def root_nsp_def Let_def)
next
  case False
  then have n: "nsp_text nsp = nsp @ [0x2C]" "root_nsp nsp = nsp" "plain_nsp nsp"
    using assms(1) by (auto simp: nsp_text_def root_nsp_def good_nsp_def)
  then have c: "\<forall>b \<in> set nsp. b \<noteq> 0x2C" "hd nsp = 0x2F" "nsp \<noteq> []"
    by (cases nsp; auto simp: plain_nsp_def list_all_iff)+
  then have "takeWhile (\<lambda>b. b \<noteq> 0x2C) (nsp @ [0x2C]) = nsp"
    "dropWhile (\<lambda>b. b \<noteq> 0x2C) (nsp @ [0x2C]) = [0x2C]" by simp_all
  with n c assms(2) show ?thesis
    by (auto simp: decode_def decode_nsp_stage_def url_path_plain Let_def)
qed

lemma json_marshal_hd: "json_marshal v = Some x \<Longrightarrow> json_plain v \<Longrightarrow> hd x \<noteq> 0x2F"
  by (cases v) (auto simp: asc_def json_string_def is_digit_def dest!: valid_num_hd split: if_splits)

lemma feed_control:
  assumes "control p" and "decoded d = []"
  shows "\<exists>p' b. Encode p = (p', Inr (b, [])) \<and>
    feed (messages b []) d =
      Ret (Some ([], [mk_packet (Type p) (root_nsp (Namespace p)) (Data p) None], newDefaultDecoder))"
proof -
  let ?q = "mk_packet (Type p) (root_nsp (Namespace p)) (Data p) None"
  have g: "good_nsp (Namespace p)" and b: "buffer p = []" "ID p = None"
    and t: "Type p = PacketTypeConnect \<or> Type p = PacketTypeDisconnect \<or> Type p = PacketTypeError"
    using assms(1) by (auto simp: control_def)
  have "\<exists>x. encodeTo (p\<lparr>attachments := 0\<rparr>) = Inr x \<and> decode x = Inr ?q"
  proof (cases "Data p = GNil")
    case True
    with b decode_nsp_text [OF g t] show ?thesis
      by (auto simp: encodeTo_def nsp_text_def Let_def)
  next
    case False
    then have j: "json_plain (Data p)" "\<not> is_digit (hd (arg_text (Data p)))"
      using assms(1) by (auto simp: control_def)
    obtain x where x: "json_marshal (Data p) = Some x" "text_of (Data p) x"
      using json_marshal_text [OF j(1)] by blast
    let ?x = "x @ [0x0A]"
    have u: "json_encode (Data p) = Inr ?x" "json_unmarshal ?x = Inr (Data p)"
      using json_roundtrip [OF j(1)] x(1) by (auto simp: json_encode_def)
    have h: "?x \<noteq> []" "\<not> is_digit (hd ?x)" "hd ?x \<noteq> 0x2F"
      using x j json_marshal_hd [OF x(1) j(1)] by (auto simp: arg_text_def text_of_def)
    have "decode_nsp_stage q (nsp_text (Namespace p) @ id_text None @ ?x) =
        decode_data (q\<lparr>Namespace := root_nsp (Namespace p), ID := None\<rparr>) ?x"
      if "Namespace q = [0x2F]" "ID q = None" for q
      using that h by (intro decode_head_data g)
    with t False b u show ?thesis
      by (auto simp: encodeTo_def nsp_text_def id_text_def Let_def decode_def decode_data_def)
  qed
  with b preprocess_control [OF assms(1)] assms(2) show ?thesis
    by (auto simp: Encode_def Add_def messages_def add_done_def decoder_emit_def yield_packet_def
        newDefaultDecoder_def Let_def)
qed

section \<open>Properties\<close>

text \<open>
  C2. An event that one peer encodes is the event the other peer reads, with its binary
  arguments: after the text message and one message per attachment the decoder delivers
  exactly one packet and no error, and forgets whatever incomplete packet it held. The packet
  has the sender's namespace and id, and \<open>ParseData\<close> gives the event name, the JSON list of the
  other arguments and the attachments in their order; JSON values in that list read back as
  themselves. This is for the events that the text format carries: a name that is not empty and
  that JSON writes without escapes (\<open>plain_event\<close>), a namespace that \<open>url.Parse\<close> leaves alone
  (\<open>good_nsp\<close>), arguments that JSON encodes and, beside attachments, none whose text ends in a comma,
  a brace or a space or holds the key of a placeholder (\<open>sendable\<close>).
\<close>
theorem event_delivery:
  assumes "sendable p" and "Type p = PacketTypeEvent" and "Data p = GList (GStr ev # vs)"
    and "plain_event ev" and "decoded d = []"
  shows "\<exists>p' b bin q.
    Encode p = (p', Inr (b, bin)) \<and>
    feed (messages b bin) d = Ret (Some ([], [q], newDefaultDecoder)) \<and>
    Namespace q = root_nsp (Namespace p) \<and> ID q = ID p \<and>
    ParseData q = Inr (ev, list_text (text_args vs), bin_args vs) \<and>
    (list_all json_plain (text_args vs) \<longrightarrow>
       json_unmarshal (list_text (text_args vs)) = Inr (GList (text_args vs)))"
  using Encode_list [OF assms(1,3)] feed_messages [OF assms(1,3,5)]
    ParseData_event [OF assms(4,2), of vs] json_unmarshal_list_text
  by (auto simp: delivered_def)

definition ev_packet :: sioPacket where
  "ev_packet = mk_packet PacketTypeEvent (asc ''/chat'')
     (GList [GStr (asc ''msg''), GBytes [1, 2], GNum (asc ''42''), GBytes []]) (Some 7)"

lemma ev_packet_ok:
  "sendable ev_packet" "plain_event (asc ''msg'')"
  by (simp_all add: ev_packet_def sendable_def plain_event_def good_nsp_def plain_nsp_def asc_def
      marshals_def max_alloc_def inline_args_def inline_text_def arg_text_def json_string_def
      esc1_def is_ctl_def)

text \<open>An event with two attachments and an id.\<close>
theorem event_delivery_witness:
  "\<exists>p' b bin q.
    Encode ev_packet = (p', Inr (b, bin)) \<and>
    feed (messages b bin) newDefaultDecoder = Ret (Some ([], [q], newDefaultDecoder)) \<and>
    Namespace q = asc ''/chat'' \<and> ID q = Some 7 \<and>
    ParseData q = Inr (asc ''msg'', list_text [GNum (asc ''42'')], [[1, 2], []]) \<and>
    (list_all json_plain [GNum (asc ''42'')] \<longrightarrow>
       json_unmarshal (list_text [GNum (asc ''42'')]) = Inr (GList [GNum (asc ''42'')]))"
  using event_delivery [OF ev_packet_ok(1), of "asc ''msg''"
      "[GBytes [1, 2], GNum (asc ''42''), GBytes []]" newDefaultDecoder] ev_packet_ok(2)
  by (simp add: ev_packet_def newDefaultDecoder_def root_nsp_def asc_def)


definition ack_packet :: sioPacket where
  "ack_packet = mk_packet PacketTypeAck [] (GList [GBool True, GBytes [9]]) (Some 3)"


text \<open>
  C31. Connect, disconnect and error packets round trip: the decoder delivers one packet of the
  same type, namespace and data. This is for packets without an id, in a namespace that \<open>url.Parse\<close>
  leaves alone, with no data or with a plain JSON value whose text does not start with a digit.
\<close>
theorem control_delivery:
  assumes "control p" and "decoded d = []"
  shows "\<exists>p' b. Encode p = (p', Inr (b, [])) \<and>
    feed (messages b []) d =
      Ret (Some ([], [mk_packet (Type p) (root_nsp (Namespace p)) (Data p) None], newDefaultDecoder))"
  using feed_control [OF assms] .

text \<open>An error packet with a string.\<close>
theorem control_delivery_witness:
  "\<exists>p' b. Encode (mk_packet PacketTypeError (asc ''/a'') (GStr (asc ''no'')) None) = (p', Inr (b, [])) \<and>
    feed (messages b []) newDefaultDecoder =
      Ret (Some ([], [mk_packet PacketTypeError (asc ''/a'') (GStr (asc ''no'')) None], newDefaultDecoder))"
proof -
  have "control (mk_packet PacketTypeError (asc ''/a'') (GStr (asc ''no'')) None)"
    by (simp add: control_def good_nsp_def plain_nsp_def asc_def is_ctl_def arg_text_def json_string_def)
  then show ?thesis
    using control_delivery [of "mk_packet PacketTypeError (asc ''/a'') (GStr (asc ''no'')) None"
        newDefaultDecoder]
    by (simp add: newDefaultDecoder_def root_nsp_def asc_def)
qed

text \<open>
  An error packet with a number, as \<open>EmitError(42)\<close> sends it, is lost: after the type the decoder takes
  the digits for an id and then finds no data.
\<close>
theorem numeric_error_lost:
  "\<exists>p' e. Encode (mk_packet PacketTypeError [0x2F] (GNum (dec (unat (i :: uint64)))) None) =
      (p', Inr (0x34 # dec (unat i) @ [0x0A], [])) \<and>
    feed (messages (0x34 # dec (unat i) @ [0x0A]) []) newDefaultDecoder = Ret (Some ([e], [], newDefaultDecoder))"
proof -
  have h: "is_digit (hd (dec (unat i)))" "dec (unat i) \<noteq> []"
    using dec_hd [of "unat i"] by auto
  have j: "json_unmarshal [0x0A] = Inl JsonError" by code_simp
  have "decode_nsp_stage q (dec (unat i) @ [0x0A]) = Inl JsonError"
    if "Type q = PacketTypeError" for q
    using that h j decode_id_stage_dec [of "[0x0A]" q i]
    by (auto simp: decode_nsp_stage_def is_digit_def decode_data_def)
  then have "decode (0x34 # dec (unat i) @ [0x0A]) = Inl JsonError"
    by (simp add: decode_def Let_def h(2))
  then show ?thesis
    by (simp add: Encode_def preprocess_def encodeTo_def json_encode_def Add_def messages_def
        yield_packet_def newDefaultDecoder_def Let_def)
qed

text \<open>
  C4. The decoder survives every sequence of messages that fit in memory: handling them one by
  one never panics and never blocks on the channel of decoded packets, the channel is empty
  again after each, every packet it delivers is complete, and a message gives at most one
  packet or one error.
\<close>
theorem decoder_total:
  assumes "list_all (\<lambda>(mt, dat). length dat \<le> max_alloc) ms"
  shows "\<exists>es qs d. feed ms newDefaultDecoder = Ret (Some (es, qs, d)) \<and> dec_inv d \<and> decoded d = []
    \<and> list_all (\<lambda>q. attachments q = 0) qs \<and> length es + length qs \<le> length ms"
  by (rule feed_total) (use assms in \<open>simp_all add: newDefaultDecoder_def dec_inv_def\<close>)

text \<open>A stray attachment, a binary event that is never completed, an unknown type, an event.\<close>
theorem decoder_total_witness:
  "\<exists>es qs d. feed [(MessageTypeBinary, [1]), (MessageTypeString, asc ''51-[0,{\"_placeholder\":true,\"num\":0}]''),
      (MessageTypeString, asc ''9''), (MessageTypeString, asc ''2[\"a\"]'')] newDefaultDecoder
      = Ret (Some (es, qs, d)) \<and> dec_inv d \<and> decoded d = []
    \<and> list_all (\<lambda>q. attachments q = 0) qs \<and> length es + length qs \<le> Suc (Suc (Suc (Suc 0)))"
  using decoder_total [of "[(MessageTypeBinary, [1]),
      (MessageTypeString, asc ''51-[0,{\"_placeholder\":true,\"num\":0}]''),
      (MessageTypeString, asc ''9''), (MessageTypeString, asc ''2[\"a\"]'')]"]
  by (simp add: max_alloc_def asc_def del: feed.simps)

text \<open>
  The event name is taken from the JSON text without undoing its escapes: for an event
  \<open>ev\<close> without quotes the receiver sees \<open>json_esc ev\<close>, so a name with \<open>&\<close>, \<open><\<close>, \<open>>\<close>, a
  backslash or a control character does not arrive as itself and its handler is not found.
\<close>
theorem event_name_escaped:
  assumes "sendable p" and "Type p = PacketTypeEvent" and "Data p = GList (GStr ev # vs)"
    and "json_esc ev \<noteq> []" and "0x22 \<notin> set (json_esc ev)" and "decoded d = []"
  shows "\<exists>p' b bin q.
    Encode p = (p', Inr (b, bin)) \<and>
    feed (messages b bin) d = Ret (Some ([], [q], newDefaultDecoder)) \<and>
    ParseData q = Inr (json_esc ev, list_text (text_args vs), bin_args vs)"
proof -
  have "ParseData (delivered p (GStr ev # vs)) = Inr (json_esc ev, list_text (text_args vs), bin_args vs)"
    using assms(2,4,5) by (auto simp: ParseData_def delivered_def wire_type_def extractEvent_list)
  then show ?thesis
    using Encode_list [OF assms(1,3)] feed_messages [OF assms(1,3,6)] by blast
qed

text \<open>The event \<open>a&b\<close> arrives as another name.\<close>
theorem event_name_escaped_witness:
  "(\<exists>p' b bin q.
    Encode (mk_packet PacketTypeEvent [] (GList [GStr (asc ''a&b'')]) None) = (p', Inr (b, bin)) \<and>
    feed (messages b bin) newDefaultDecoder = Ret (Some ([], [q], newDefaultDecoder)) \<and>
    ParseData q = Inr (asc [CHR ''a'', CHR 0x5C, CHR ''u'', CHR ''0'', CHR ''0'', CHR ''2'', CHR ''6'', CHR ''b''],
      list_text [], [])) \<and> json_esc (asc ''a&b'') \<noteq> asc ''a&b''"
proof -
  let ?p = "mk_packet PacketTypeEvent [] (GList [GStr (asc ''a&b'')]) None"
  have e: "json_esc (asc ''a&b'') =
    asc [CHR ''a'', CHR 0x5C, CHR ''u'', CHR ''0'', CHR ''0'', CHR ''2'', CHR ''6'', CHR ''b'']"
    by (simp add: asc_def esc1_def hexdig_def)
  have "sendable ?p"
    by (simp add: sendable_def good_nsp_def marshals_def max_alloc_def)
  then show ?thesis
    using event_name_escaped [of ?p "asc ''a&b''" "[]" newDefaultDecoder] e
    by (simp add: newDefaultDecoder_def) (simp add: asc_def)
qed

text \<open>
  An ack whose first value is binary is lost: the encoder writes it as any other, but the
  receiver's pattern wants a comma before each placeholder, counts one too few and rejects the
  text and then the attachment.
\<close>
theorem binary_first_ack_rejected:
  "\<exists>p' b. Encode (mk_packet PacketTypeAck [] (GList [GBytes x]) (Some i)) = (p', Inr (b, [x])) \<and>
    feed (messages b [x]) newDefaultDecoder =
      Ret (Some ([ErrUnknownPacket, ErrUnknownPacket], [], newDefaultDecoder))"
proof -
  let ?r = "list_text [GPlaceholder 0]"
  let ?b = "[0x36, 0x31, 0x2D] @ dec (unat i) @ ?r"
  have s1: "sint (1 :: goint) = 1" by simp
  have E: "Encode (mk_packet PacketTypeAck [] (GList [GBytes x]) (Some i)) =
    (preprocess (mk_packet PacketTypeAck [] (GList [GBytes x]) (Some i)), Inr (?b, [x]))"
    by (simp add: Encode_def preprocess_def encodeTo_def json_encode_def list_text_def FormatInt_def
        dec_def dec_digits.simps arg_text_def Let_def)
  have x: "extractAttachments ?r = ([], ?r)"
    by (simp add: extractAttachments_def list_text_def placeholder_json_def asc_def dec_def
        dec_digits.simps rx_match_def placeholderExp_def)
  have h: "decode_nsp_stage q (nsp_text [] @ id_text (Some i) @ ?r) =
      decode_data (q\<lparr>Namespace := root_nsp [], ID := Some i\<rparr>) ?r"
    if "Namespace q = [0x2F]" "ID q = None" for q
    using that by (intro decode_head_data) (simp_all add: good_nsp_def)
  have "decode ?b = Inr (\<lparr>Type = PacketTypeBinaryAck, Namespace = [0x2F], Data = GRaw ?r,
      ID = Some i, attachments = 1, buffer = []\<rparr>)"
    using h x by (simp add: decode_def nsp_text_def id_text_def root_nsp_def decode_data_def mk_packet_def)
  with E show ?thesis
    by (auto simp: messages_def Add_def yield_packet_def newDefaultDecoder_def)
qed

text \<open>
  An ack without data, the reply to an event whose handler has no results or is not
  registered, is decoded but cannot be read: \<open>ParseData\<close> rejects it, so the sender's callback
  is not called.
\<close>
theorem empty_ack_unreadable:
  "\<exists>p' b q. Encode (mk_packet PacketTypeAck [0x2F] GNil (Some i)) = (p', Inr (b, [])) \<and>
    feed (messages b []) newDefaultDecoder = Ret (Some ([], [q], newDefaultDecoder)) \<and>
    ID q = Some i \<and> ParseData q = Inl (Errorf ''data should be bytes'')"
proof -
  obtain c t where c: "dec (unat i) = c # t" "is_digit c" using dec_hd by blast
  have "decode_nsp_stage q (dec (unat i)) = Inr (q\<lparr>ID := Some i\<rparr>)" for q
    using decode_id_stage_dec [of "[]" q i] c
    by (auto simp: decode_nsp_stage_def is_digit_neq)
  then have "decode (0x33 # dec (unat i)) = Inr (mk_packet PacketTypeAck [0x2F] GNil (Some i))"
    by (simp add: decode_def mk_packet_def)
  moreover have "Encode (mk_packet PacketTypeAck [0x2F] GNil (Some i)) =
    (mk_packet PacketTypeAck [0x2F] GNil (Some i), Inr (0x33 # dec (unat i), []))"
    by (simp add: Encode_def preprocess_def encodeTo_def mk_packet_def Let_def)
  ultimately show ?thesis
    by (simp add: messages_def Add_def add_done_def decoder_emit_def yield_packet_def
        newDefaultDecoder_def ParseData_def)
qed

end
