(* ===== verification/Engine_Payload.thy ===== *)
theory Engine_Payload
  imports Engine_Protocol Go_Base64
begin

text \<open>
  \<open>engine/payload.go\<close>: the two framings of engine.io packets over HTTP. The text framing
  (\<open>Packet\<close>) writes \<open><length>:<type><data>\<close>, with base64 data behind a \<open>b\<close> for binary
  messages; the XHR2 framing (\<open>packet2\<close>) writes a type byte, the length as one byte per
  decimal digit, \<open>0xFF\<close>, the packet type and the raw data. A payload is a sequence of
  packets in one framing. The locale \<open>framing\<close> states what the reading loop needs of a
  packet codec; both framings are interpretations of it.
\<close>

section \<open>Data\<close>

record eioPacket =
  msgType :: byte
  pktType :: byte
  data :: bytes

type_synonym packet2 = eioPacket

record Payload =
  packets :: "eioPacket list"
  xhr2 :: bool

definition zero_packet :: eioPacket where
  "zero_packet = \<lparr>msgType = 0, pktType = 0, data = []\<rparr>"

section \<open>Text framing: writing\<close>

definition encodeHead :: "eioPacket \<Rightarrow> (goint \<times> bytes \<times> bytes) outcome" where
  "encodeHead p =
     (let len = of_nat (length (data p)) in
      if msgType p = MessageTypeString
      then Ret (len + 1, [0x3A, pktType p + 0x30], data p)
      else if msgType p = MessageTypeBinary
      then (let len = EncodedLen len
            in Ret (len + 2, [0x3A, 0x62, pktType p + 0x30], b64_encode (data p)))
      else Panic)"

definition Packet_WriteTo :: "eioPacket \<Rightarrow> writer \<Rightarrow> (nat \<times> goerr option \<times> writer) outcome" where
  "Packet_WriteTo p w =
     (case encodeHead p of
        Panic \<Rightarrow> Panic
      | Ret (len, dv, dat) \<Rightarrow>
          (case Write (FormatInt (sint len)) w of
             (n1, Some e, w1) \<Rightarrow> Ret (n1, Some e, w1)
           | (n1, None, w1) \<Rightarrow>
               (case Write dv w1 of
                  (n2, Some e, w2) \<Rightarrow> Ret (n1 + n2, Some e, w2)
                | (n2, None, w2) \<Rightarrow>
                    (case Write dat w2 of
                       (n3, err, w3) \<Rightarrow> Ret (n1 + n2 + n3, err, w3)))))"

section \<open>Text framing: reading\<close>

text \<open>The digit loop of \<open>decodeHead\<close>: bytes read, length, error, rest.\<close>

function head_loop :: "goint \<Rightarrow> goint \<Rightarrow> reader \<Rightarrow> goint \<times> goint \<times> goerr option \<times> reader" where
  "head_loop n len r =
     (case ReadByte r of
        (Inl e, r') \<Rightarrow> (n, 0, Some e, r')
      | (Inr b, r') \<Rightarrow>
          if b = 0x3A then (n + 1, len, None, r')
          else if b < 0x30 \<or> b > 0x39 then (n + 1, 0, Some ErrInvalidPayload, r')
          else head_loop (n + 1) (len * 10 + ucast (b - 0x30)) r')"
  by pat_completeness auto
termination
  by (relation "measure (\<lambda>(n, len, r). rsize r)")
     (auto dest!: sym [of _ "ReadByte _"] ReadByte_rsize)

declare head_loop.simps [simp del]

definition decodeHead ::
  "eioPacket \<Rightarrow> reader \<Rightarrow> goint \<times> goint \<times> goerr option \<times> eioPacket \<times> reader" where
  "decodeHead p r =
     (case head_loop 0 0 r of
        (n, len, Some e, r1) \<Rightarrow> (n, len, Some e, p, r1)
      | (n, len, None, r1) \<Rightarrow>
          (case ReadByte r1 of
             (Inl e, r2) \<Rightarrow> (n, len, Some e, p, r2)
           | (Inr b, r2) \<Rightarrow>
               if b = 0x62 then
                 (case ReadByte r2 of
                    (Inl e, r3) \<Rightarrow> (n + 1, len - 1, Some e, p, r3)
                  | (Inr b', r3) \<Rightarrow>
                      (n + 2, len - 2, None,
                       p\<lparr>msgType := MessageTypeBinary, pktType := b' - 0x30\<rparr>, r3))
               else
                 (n + 1, len - 1, None,
                  p\<lparr>msgType := MessageTypeString, pktType := b - 0x30\<rparr>, r2)))"

definition Packet_decode ::
  "eioPacket \<Rightarrow> reader \<Rightarrow> (goint \<times> goerr option \<times> eioPacket \<times> reader) outcome" where
  "Packet_decode p r =
     (case decodeHead p r of
        (n, l, Some e, p, r1) \<Rightarrow> Ret (n, Some e, p, r1)
      | (n, l, None, p, r1) \<Rightarrow>
          (let n' = n + l;
               l' = (if msgType p = MessageTypeBinary then DecodedLen l else l)
           in if \<not> makeslice_ok l' then Panic
              else if l' = 0 then Ret (n', None, p\<lparr>data := []\<rparr>, r1)
              else (case (if msgType p = MessageTypeBinary
                          then b64_Read (unat l') r1 else Read (unat l') r1) of
                      (bs, err, r2) \<Rightarrow>
                        Ret (n', err, p\<lparr>data := filled (unat l') bs\<rparr>, r2))))"

section \<open>XHR2 framing\<close>

text \<open>The decimal digits of the length, least significant first, as the loop collects them.\<close>

fun length_digits :: "nat \<Rightarrow> nat list" where
  "length_digits n = (if n > 0 then n mod 10 # length_digits (n div 10) else [])"

declare length_digits.simps [simp del]

definition packet2_WriteTo :: "packet2 \<Rightarrow> writer \<Rightarrow> (nat \<times> goerr option \<times> writer) outcome" where
  "packet2_WriteTo p w =
     (case Write [msgType p] w of
        (_, Some e, w1) \<Rightarrow> Ret (0, Some e, w1)
      | (_, None, w1) \<Rightarrow>
          (let lb = map of_nat (length_digits (length (data p) + 1));
               b = (if msgType p = MessageTypeString then pktType p + 0x30 else pktType p);
               buf = rev lb @ [0xFF, b]
           in (case Write buf w1 of
                 (_, Some e, w2) \<Rightarrow> Ret (1, Some e, w2)
               | (n2, None, w2) \<Rightarrow>
                   (case Write (data p) w2 of
                      (n3, err, w3) \<Rightarrow> Ret (1 + n2 + n3, err, w3)))))"

function head2_loop :: "goint \<Rightarrow> goint \<Rightarrow> reader \<Rightarrow> goint \<times> goint \<times> goerr option \<times> reader" where
  "head2_loop n len r =
     (case ReadByte r of
        (Inl e, r') \<Rightarrow> (n, len, Some e, r')
      | (Inr b, r') \<Rightarrow>
          if b = 0xFF then (n + 1, len, None, r')
          else if b > 9 then (n + 1, len, Some ErrInvalidPayload, r')
          else head2_loop (n + 1) (len * 10 + ucast b) r')"
  by pat_completeness auto
termination
  by (relation "measure (\<lambda>(n, len, r). rsize r)")
     (auto dest!: sym [of _ "ReadByte _"] ReadByte_rsize)

declare head2_loop.simps [simp del]

definition packet2_decodeHead ::
  "packet2 \<Rightarrow> reader \<Rightarrow> goint \<times> goint \<times> goerr option \<times> packet2 \<times> reader" where
  "packet2_decodeHead p r =
     (case ReadByte r of
        (Inl e, r1) \<Rightarrow> (0, 0, Some e, p, r1)
      | (Inr b, r1) \<Rightarrow>
          if b > 1 then (1, 0, Some ErrInvalidPayload, p, r1)
          else (let p = p\<lparr>msgType := b\<rparr> in
                (case head2_loop 1 0 r1 of
                   (n, len, Some e, r2) \<Rightarrow> (n, len, Some e, p, r2)
                 | (n, len, None, r2) \<Rightarrow>
                     (case ReadByte r2 of
                        (Inl e, r3) \<Rightarrow> (n, len, Some e, p, r3)
                      | (Inr b', r3) \<Rightarrow>
                          (n + 1, len - 1, None,
                           p\<lparr>pktType :=
                               (if msgType p = MessageTypeString then b' - 0x30 else b')\<rparr>,
                           r3)))))"

definition packet2_decode ::
  "packet2 \<Rightarrow> reader \<Rightarrow> (goint \<times> goerr option \<times> packet2 \<times> reader) outcome" where
  "packet2_decode p r =
     (case packet2_decodeHead p r of
        (n, l, Some e, p, r1) \<Rightarrow> Ret (n, Some e, p, r1)
      | (n, l, None, p, r1) \<Rightarrow>
          if \<not> makeslice_ok l then Panic
          else if l = 0 then Ret (n, None, p\<lparr>data := []\<rparr>, r1)
          else (case Read (unat l) r1 of
                  (bs, err, r2) \<Rightarrow>
                    Ret (n + of_nat (length bs), err, p\<lparr>data := filled (unat l) bs\<rparr>, r2)))"

section \<open>Progress of the decoders\<close>

lemma head_loop_rsize: "head_loop n len r = (n', len', err, r') \<Longrightarrow> rsize r' \<le> rsize r"
proof (induction n len r rule: head_loop.induct)
  case (1 n len r)
  then show ?case
    by (subst (asm) (2) head_loop.simps)
       (fastforce split: prod.splits sum.splits if_splits dest: ReadByte_rsize ReadByte_Inl
          simp: rsize_def)
qed

lemma head2_loop_rsize: "head2_loop n len r = (n', len', err, r') \<Longrightarrow> rsize r' \<le> rsize r"
proof (induction n len r rule: head2_loop.induct)
  case (1 n len r)
  then show ?case
    by (subst (asm) (2) head2_loop.simps)
       (fastforce split: prod.splits sum.splits if_splits dest: ReadByte_rsize ReadByte_Inl
          simp: rsize_def)
qed

lemma decodeHead_rsize: "decodeHead p r = (n, l, None, p', r') \<Longrightarrow> rsize r' < rsize r"
  by (fastforce simp: decodeHead_def
        split: prod.splits option.splits sum.splits if_splits
        dest: head_loop_rsize ReadByte_rsize)

lemma packet2_decodeHead_rsize:
  "packet2_decodeHead p r = (n, l, None, p', r') \<Longrightarrow> rsize r' < rsize r"
  by (fastforce simp: packet2_decodeHead_def Let_def
        split: prod.splits option.splits sum.splits if_splits
        dest: head2_loop_rsize ReadByte_rsize)

lemma Packet_decode_rsize:
  "Packet_decode p r = Ret (n, None, p', r') \<Longrightarrow> rsize r' < rsize r"
  by (fastforce simp: Packet_decode_def Let_def
        split: prod.splits option.splits if_splits
        dest: decodeHead_rsize Read_rsize_le b64_Read_rsize_le)

lemma packet2_decode_rsize:
  "packet2_decode p r = Ret (n, None, p', r') \<Longrightarrow> rsize r' < rsize r"
  by (fastforce simp: packet2_decode_def
        split: prod.splits option.splits if_splits
        dest: packet2_decodeHead_rsize Read_rsize_le)

section \<open>Payloads\<close>

text \<open>The two reading loops: packets so far, bytes so far; \<open>EOF\<close> ends the payload.\<close>

function read_packets ::
  "eioPacket list \<Rightarrow> goint \<Rightarrow> reader \<Rightarrow>
   (goint \<times> goerr option \<times> eioPacket list \<times> reader) outcome" where
  "read_packets ps n r =
     (case Packet_decode zero_packet r of
        Panic \<Rightarrow> Panic
      | Ret (nn, Some e, p, r') \<Rightarrow>
          Ret (n + nn, if e = EOF then None else Some e, ps, r')
      | Ret (nn, None, p, r') \<Rightarrow> read_packets (ps @ [p]) (n + nn) r')"
  by pat_completeness auto
termination
  by (relation "measure (\<lambda>(ps, n, r). rsize r)") (auto dest!: Packet_decode_rsize)

function read_packets2 ::
  "eioPacket list \<Rightarrow> goint \<Rightarrow> reader \<Rightarrow>
   (goint \<times> goerr option \<times> eioPacket list \<times> reader) outcome" where
  "read_packets2 ps n r =
     (case packet2_decode zero_packet r of
        Panic \<Rightarrow> Panic
      | Ret (nn, Some e, p, r') \<Rightarrow>
          Ret (n + nn, if e = EOF then None else Some e, ps, r')
      | Ret (nn, None, p, r') \<Rightarrow> read_packets2 (ps @ [p]) (n + nn) r')"
  by pat_completeness auto
termination
  by (relation "measure (\<lambda>(ps, n, r). rsize r)") (auto dest!: packet2_decode_rsize)

declare read_packets.simps [simp del] read_packets2.simps [simp del]

definition Payload_ReadFrom ::
  "Payload \<Rightarrow> reader \<Rightarrow> (goint \<times> goerr option \<times> Payload \<times> reader) outcome" where
  "Payload_ReadFrom pl r =
     (case (if xhr2 pl then read_packets2 else read_packets) (packets pl) 0 r of
        Panic \<Rightarrow> Panic
      | Ret (n, err, ps, r') \<Rightarrow> Ret (n, err, pl\<lparr>packets := ps\<rparr>, r'))"

fun write_packets ::
  "(eioPacket \<Rightarrow> writer \<Rightarrow> (nat \<times> goerr option \<times> writer) outcome) \<Rightarrow> eioPacket list \<Rightarrow>
   nat \<Rightarrow> writer \<Rightarrow> (nat \<times> goerr option \<times> writer) outcome" where
  "write_packets wr [] n w = Ret (n, None, w)"
| "write_packets wr (p # ps) n w =
     (case wr p w of
        Panic \<Rightarrow> Panic
      | Ret (nn, Some e, w') \<Rightarrow> Ret (n + nn, Some e, w')
      | Ret (nn, None, w') \<Rightarrow> write_packets wr ps (n + nn) w')"

definition Payload_WriteTo :: "Payload \<Rightarrow> writer \<Rightarrow> (nat \<times> goerr option \<times> writer) outcome" where
  "Payload_WriteTo pl w =
     (if packets pl = [] then Ret (0, None, w)
      else if xhr2 pl then write_packets packet2_WriteTo (packets pl) 0 w
      else write_packets Packet_WriteTo (packets pl) 0 w)"

section \<open>Reference frames\<close>

text \<open>What one packet looks like on the wire, as a function of the packet.\<close>

definition text_frame :: "eioPacket \<Rightarrow> bytes" where
  "text_frame p =
     (if msgType p = MessageTypeString
      then dec (length (data p) + 1) @ [0x3A, pktType p + 0x30] @ data p
      else dec ((length (data p) + 2) div 3 * 4 + 2) @ [0x3A, 0x62, pktType p + 0x30]
           @ b64_encode (data p))"

definition xhr2_frame :: "packet2 \<Rightarrow> bytes" where
  "xhr2_frame p =
     [msgType p] @ map of_nat (dec_digits (length (data p) + 1))
     @ [0xFF, if msgType p = MessageTypeString then pktType p + 0x30 else pktType p] @ data p"

text \<open>
  The packets a framing can carry. In the text framing the type character of a string
  packet must not be the \<open>b\<close> that announces binary data, and binary data must fit the
  one buffer of the base64 decoder.
\<close>

definition text_ok :: "eioPacket \<Rightarrow> bool" where
  "text_ok p \<longleftrightarrow>
     msgType p = MessageTypeString \<and> pktType p \<noteq> 0x32 \<and> length (data p) \<le> max_alloc
     \<or> msgType p = MessageTypeBinary \<and> length (data p) \<le> 768"

definition xhr2_ok :: "packet2 \<Rightarrow> bool" where
  "xhr2_ok p \<longleftrightarrow> msgType p \<le> 1 \<and> length (data p) \<le> max_alloc"

text \<open>
  What the text decoder returns for a packet: the data slice is as long as the base64
  quanta, so binary data is padded with zero bytes to a multiple of three.
\<close>

definition pad3 :: "bytes \<Rightarrow> bytes" where
  "pad3 d = d @ replicate ((length d + 2) div 3 * 3 - length d) 0"

definition text_seen :: "eioPacket \<Rightarrow> eioPacket" where
  "text_seen p =
     (if msgType p = MessageTypeBinary then p\<lparr>data := pad3 (data p)\<rparr> else p)"

section \<open>Writing produces the reference frames\<close>

lemma length_digits_rev: "0 < n \<Longrightarrow> rev (length_digits n) = dec_digits n"
proof (induction n rule: length_digits.induct)
  case (1 n)
  show ?case
  proof (cases "n < 10")
    case True
    with "1.prems" show ?thesis
      by (subst length_digits.simps, subst dec_digits.simps) (simp add: length_digits.simps)
  next
    case False
    then show ?thesis
      using "1" by (subst length_digits.simps, subst dec_digits.simps) simp
  qed
qed

lemma FormatInt_nat [simp]: "FormatInt (int n) = dec n"
  by (simp add: FormatInt_def)

lemma b64_frame_length_bound: "n \<le> (2::nat) ^ 48 \<Longrightarrow> (n + 2) div 3 * 4 + 2 \<le> 2 ^ 50"
  by simp

lemma encodeHead_frame:
  assumes "msgType p \<le> 1" and "length (data p) \<le> max_alloc"
  shows "\<exists>len dv dat. encodeHead p = Ret (len, dv, dat) \<and>
           FormatInt (sint len) @ dv @ dat = text_frame p"
proof -
  let ?n = "length (data p)"
  have str: "sint (of_nat ?n + 1 :: goint) = int (?n + 1)"
    using assms(2) sint_of_nat_goint [of "?n + 1"] by (simp add: max_alloc_def add.commute)
  have "EncodedLen (of_nat ?n) + 2 = of_nat ((?n + 2) div 3 * 4 + 2)"
    using assms(2) by (simp add: max_alloc_def EncodedLen_of_nat)
  then have bin: "sint (EncodedLen (of_nat ?n) + 2) = int ((?n + 2) div 3 * 4 + 2)"
    using assms(2) by (simp only: sint_of_nat_goint b64_frame_length_bound max_alloc_def)
  have "msgType p = 0 \<or> msgType p = 1"
    using assms(1) by (metis word_le_sub1 word_less_1 word_le_less_eq)
  then show ?thesis
    by (auto simp: encodeHead_def text_frame_def Let_def str bin simp del: of_nat_add of_nat_Suc)
qed

text \<open>
  Into a writer of any capacity, \<open>Packet.WriteTo\<close> writes a prefix of the frame, reports
  exactly how many bytes it wrote, and returns no error only when the frame is complete.
\<close>

lemma Packet_WriteTo_frame:
  assumes "msgType p \<le> 1" and "length (data p) \<le> max_alloc"
  shows "\<exists>n err w'. Packet_WriteTo p w = Ret (n, err, w') \<and> n \<le> length (text_frame p) \<and>
           written w' = written w @ take n (text_frame p) \<and>
           (err = None \<longleftrightarrow> n = length (text_frame p)) \<and> (room w = None \<longrightarrow> err = None \<and> room w' = None)"
proof -
  obtain len dv dat where h: "encodeHead p = Ret (len, dv, dat)"
    and f: "text_frame p = FormatInt (sint len) @ dv @ dat"
    using encodeHead_frame [OF assms] by metis
  obtain n1 e1 w1 where 1: "Write (FormatInt (sint len)) w = (n1, e1, w1)" by (metis prod_cases3)
  obtain n2 e2 w2 where 2: "Write dv w1 = (n2, e2, w2)" by (metis prod_cases3)
  obtain n3 e3 w3 where 3: "Write dat w2 = (n3, e3, w3)" by (metis prod_cases3)
  have room: "room w = None \<Longrightarrow> e1 = None \<and> room w1 = None"
    "room w1 = None \<Longrightarrow> e2 = None \<and> room w2 = None" "room w2 = None \<Longrightarrow> e3 = None \<and> room w3 = None"
    using 1 2 3 by (auto simp: Write_def)
  from Write_count [OF 1] Write_count [OF 2] Write_count [OF 3] room show ?thesis
    by (cases e1; cases e2) (auto simp: Packet_WriteTo_def h f 1 2 3)
qed

lemma packet2_WriteTo_frame:
  "\<exists>n err w'. packet2_WriteTo p w = Ret (n, err, w') \<and>
     (\<exists>k. n \<le> k \<and> k \<le> length (xhr2_frame p) \<and> written w' = written w @ take k (xhr2_frame p) \<and>
          (err = None \<longrightarrow> n = k) \<and> (err = None \<longleftrightarrow> k = length (xhr2_frame p))) \<and>
     (room w = None \<longrightarrow> err = None \<and> room w' = None)"
proof -
  define hd1 where "hd1 = [msgType p]"
  define buf where "buf = rev (map of_nat (length_digits (length (data p) + 1)))
    @ [0xFF, if msgType p = MessageTypeString then pktType p + 0x30 else pktType p]"
  have f: "xhr2_frame p = hd1 @ buf @ data p" and h: "length hd1 = 1"
    by (simp_all add: xhr2_frame_def length_digits_rev rev_map hd1_def buf_def)
  obtain n1 e1 w1 where 1: "Write hd1 w = (n1, e1, w1)" by (metis prod_cases3)
  obtain n2 e2 w2 where 2: "Write buf w1 = (n2, e2, w2)" by (metis prod_cases3)
  obtain n3 e3 w3 where 3: "Write (data p) w2 = (n3, e3, w3)" by (metis prod_cases3)
  have room: "room w = None \<Longrightarrow> e1 = None \<and> room w1 = None"
    "room w1 = None \<Longrightarrow> e2 = None \<and> room w2 = None" "room w2 = None \<Longrightarrow> e3 = None \<and> room w3 = None"
    using 1 2 3 by (auto simp: Write_def)
  have b: "packet2_WriteTo p w =
    (case e1 of Some e \<Rightarrow> Ret (0, Some e, w1) | None \<Rightarrow>
      (case e2 of Some e \<Rightarrow> Ret (1, Some e, w2) | None \<Rightarrow> Ret (1 + n2 + n3, e3, w3)))"
    using 1 2 3 unfolding hd1_def buf_def
    by (simp add: packet2_WriteTo_def Let_def split: option.splits split del: if_split)
  show ?thesis
  proof (cases e1)
    case (Some e)
    with room(1) obtain y where "room w = Some y" by fastforce
    with Some b Write_count [OF 1] h show ?thesis
      by (intro exI [of _ 0] exI [of _ e1] exI [of _ w1]) (auto intro!: exI [of _ n1] simp: f)
  next
    case e1: None
    note c1 = Write_count [OF 1] and c2 = Write_count [OF 2] and c3 = Write_count [OF 3]
    show ?thesis
    proof (cases e2)
      case (Some e)
      with room(1,2) obtain y where "room w = Some y" by fastforce
      with Some b c1 c2 h e1 show ?thesis
        by (intro exI [of _ 1] exI [of _ e2] exI [of _ w2])
           (auto intro!: exI [of _ "n1 + n2"] simp: f)
    next
      case None
      with b room c1 c2 c3 h e1 show ?thesis
        by (intro exI [of _ "1 + n2 + n3"] exI [of _ e3] exI [of _ w3])
           (auto intro!: exI [of _ "n1 + n2 + n3"] simp: f)
    qed
  qed
qed

section \<open>Reading a reference frame\<close>

lemma head_loop_digits:
  "\<forall>d \<in> set ds. d < 10 \<Longrightarrow>
   head_loop n (of_nat a) ((map (\<lambda>d. of_nat d + 0x30) ds @ 0x3A # rest) # r) =
     (n + of_nat (length ds + 1), of_nat (undigits a ds), None, rest # r)"
proof (induction ds arbitrary: n a)
  case Nil
  then show ?case by (subst head_loop.simps) simp
next
  case (Cons d ds)
  have "of_nat a * 10 + of_nat d = (of_nat (a * 10 + d) :: goint)" by simp
  with Cons show ?case
    by (subst head_loop.simps) (simp add: algebra_simps del: of_nat_mult of_nat_add)
qed

lemma head2_loop_digits:
  "\<forall>d \<in> set ds. d < 10 \<Longrightarrow>
   head2_loop n (of_nat a) ((map of_nat ds @ 0xFF # rest) # r) =
     (n + of_nat (length ds + 1), of_nat (undigits a ds), None, rest # r)"
proof (induction ds arbitrary: n a)
  case Nil
  then show ?case by (subst head2_loop.simps) simp
next
  case (Cons d ds)
  have "of_nat a * 10 + of_nat d = (of_nat (a * 10 + d) :: goint)" by simp
  with Cons show ?case
    by (subst head2_loop.simps) (simp add: algebra_simps del: of_nat_mult of_nat_add)
qed

lemma head_loop_dec:
  "head_loop 0 0 ((dec a @ 0x3A # rest) # r) =
     (of_nat (length (dec a) + 1), of_nat a, None, rest # r)"
  using head_loop_digits [of "dec_digits a" 0 0 rest r] dec_digits_less by (simp add: dec_def)

lemma head2_loop_dec:
  "head2_loop 1 0 ((map of_nat (dec_digits a) @ 0xFF # rest) # r) =
     (of_nat (length (dec_digits a) + 2), of_nat a, None, rest # r)"
  using head2_loop_digits [of "dec_digits a" 1 0 rest r] dec_digits_less by simp

lemma Packet_decode_frame [codec]:
  assumes "text_ok p"
  shows "Packet_decode zero_packet [text_frame p @ rest] =
           Ret (of_nat (length (text_frame p)), None, text_seen p, [rest])"
proof -
  let ?n = "length (data p)"
  consider (str) "msgType p = MessageTypeString" "pktType p \<noteq> 0x32" "?n \<le> max_alloc"
    | (bin) "msgType p = MessageTypeBinary" "?n \<le> 768"
    using assms by (auto simp: text_ok_def)
  then show ?thesis
  proof cases
    case str
    then have "pktType p + 0x30 \<noteq> 0x62" 
      using eq_diff_eq [of "pktType p" "0x62" "0x30"] by simp
    with str show ?thesis
      by (cases p; cases "data p = []")
         (simp_all add: Packet_decode_def decodeHead_def text_frame_def head_loop_dec
            makeslice_ok_of_nat unat_of_nat_goint Let_def text_seen_def zero_packet_def Read_single)
  next
    case bin
    let ?q = "(?n + 2) div 3"
    have q: "?q * 3 \<le> max_alloc" "?n \<le> ?q * 3" using bin by (simp_all add: max_alloc_def)
    have d: "DecodedLen (of_nat (?q * 4)) = of_nat (?q * 3)"
      using bin by (subst DecodedLen_of_nat) simp_all
    show ?thesis
    proof (cases "data p = []")
      case True
      with bin show ?thesis
        by (cases p) (simp add: Packet_decode_def decodeHead_def text_frame_def head_loop_dec
            makeslice_ok_def Let_def text_seen_def zero_packet_def pad3_def DecodedLen_def
            go_div_def max_alloc_def)
    next
      case False
      then have q0: "?q * 3 \<noteq> 0" by (cases "data p") simp_all
      have "b64_Read (?q * 3) [b64_encode (data p) @ rest] = (data p, None, [rest])"
        using False bin by (intro b64_Read_encoded) simp_all
      with bin q q0 d show ?thesis
        by (cases p) (simp add: Packet_decode_def decodeHead_def text_frame_def head_loop_dec
            makeslice_ok_of_nat unat_of_nat_goint Let_def text_seen_def zero_packet_def pad3_def
            filled_short b64_encode_length del: of_nat_mult)
    qed
  qed
qed

lemma packet2_decode_frame [codec]:
  assumes "xhr2_ok p"
  shows "packet2_decode zero_packet [xhr2_frame p @ rest] =
           Ret (of_nat (length (xhr2_frame p)), None, p, [rest])"
proof -
  have m: "msgType p \<le> 1" "\<not> 1 < msgType p" and n: "length (data p) \<le> max_alloc"
    using assms by (simp_all add: xhr2_ok_def not_less)
  have h: "packet2_decodeHead zero_packet [xhr2_frame p @ rest] =
      (of_nat (length (dec_digits (length (data p) + 1)) + 3), of_nat (length (data p)), None,
       p\<lparr>data := []\<rparr>, [data p @ rest])"
    using m head2_loop_dec [of "length (data p) + 1"]
    by (cases p) (simp add: packet2_decodeHead_def xhr2_frame_def Let_def zero_packet_def)
  show ?thesis
    unfolding packet2_decode_def h
    using n by (cases p; cases "data p = []")
      (simp_all add: xhr2_frame_def makeslice_ok_of_nat unat_of_nat_goint Read_single)
qed

section \<open>The reading loop over any framing\<close>

text \<open>
  What the loop of \<open>Payload.readFrom\<close> needs of a packet codec: the decoder consumes
  exactly one frame, returns the packet as the framing shows it, and reports \<open>EOF\<close> on an
  exhausted stream. \<open>loop\<close> is the loop itself, given by its unfolding.
\<close>

locale framing =
  fixes frame :: "'p \<Rightarrow> bytes"
    and seen :: "'p \<Rightarrow> 'p"
    and ok :: "'p \<Rightarrow> bool"
    and decode1 :: "reader \<Rightarrow> (goint \<times> goerr option \<times> 'p \<times> reader) outcome"
    and loop :: "'p list \<Rightarrow> goint \<Rightarrow> reader \<Rightarrow> (goint \<times> goerr option \<times> 'p list \<times> reader) outcome"
  assumes decode_frame:
      "ok p \<Longrightarrow> decode1 [frame p @ rest] = Ret (of_nat (length (frame p)), None, seen p, [rest])"
    and decode_eof: "\<exists>p. decode1 [[]] = Ret (0, Some EOF, p, [])"
    and loop_unfold:
      "loop ps n r =
         (case decode1 r of
            Panic \<Rightarrow> Panic
          | Ret (nn, Some e, p, r') \<Rightarrow> Ret (n + nn, if e = EOF then None else Some e, ps, r')
          | Ret (nn, None, p, r') \<Rightarrow> loop (ps @ [p]) (n + nn) r')"
begin

lemma loop_frames:
  "\<forall>p \<in> set ps. ok p \<Longrightarrow>
   loop acc n [concat (map frame ps)] =
     Ret (n + of_nat (length (concat (map frame ps))), None, acc @ map seen ps, [])"
proof (induction ps arbitrary: acc n)
  case Nil
  from decode_eof show ?case by (subst loop_unfold) auto
next
  case (Cons p ps)
  then show ?case
    by (subst loop_unfold) (simp add: decode_frame algebra_simps)
qed

text \<open>A stream that breaks after some frames: the packets before the break are kept.\<close>

lemma loop_frames_then:
  "\<forall>p \<in> set ps. ok p \<Longrightarrow>
   loop acc n [concat (map frame ps) @ rest] =
     loop (acc @ map seen ps) (n + of_nat (length (concat (map frame ps)))) [rest]"
proof (induction ps arbitrary: acc n)
  case Nil
  then show ?case by simp
next
  case (Cons p ps)
  then show ?case
    by (subst loop_unfold) (simp add: decode_frame algebra_simps)
qed

end

lemma Packet_decode_eof: "\<exists>p. Packet_decode zero_packet [[]] = Ret (0, Some EOF, p, [])"
  by (simp add: Packet_decode_def decodeHead_def head_loop.simps)

lemma packet2_decode_eof: "\<exists>p. packet2_decode zero_packet [[]] = Ret (0, Some EOF, p, [])"
  by (simp add: packet2_decode_def packet2_decodeHead_def)

interpretation textF: framing text_frame text_seen text_ok "Packet_decode zero_packet" read_packets
  by unfold_locales
     (rule Packet_decode_frame Packet_decode_eof read_packets.simps, assumption?)+

interpretation xhr2F: framing xhr2_frame "\<lambda>p. p" xhr2_ok "packet2_decode zero_packet" read_packets2
  by unfold_locales
     (rule packet2_decode_frame packet2_decode_eof read_packets2.simps, assumption?)+

section \<open>Writing a payload\<close>

lemma write_packets_frames:
  assumes wr: "\<And>p w. p \<in> set ps \<Longrightarrow> room w = None \<Longrightarrow>
      wr p w = Ret (length (frame p), None, w\<lparr>written := written w @ frame p\<rparr>)"
    and "room w = None"
  shows "write_packets wr ps n w =
    Ret (n + length (concat (map frame ps)), None, w\<lparr>written := written w @ concat (map frame ps)\<rparr>)"
  using assms
proof (induction ps arbitrary: n w)
  case Nil
  then show ?case by simp
next
  case (Cons p ps)
  from Cons.prems have "wr p w = Ret (length (frame p), None, w\<lparr>written := written w @ frame p\<rparr>)"
    by simp
  with Cons.IH [of "w\<lparr>written := written w @ frame p\<rparr>" "n + length (frame p)"] Cons.prems
  show ?case by simp
qed

lemma writer_eqI: "written a = written b \<Longrightarrow> room a = room b \<Longrightarrow> a = (b :: writer)"
  by simp

lemma text_okD: "text_ok p \<Longrightarrow> msgType p \<le> 1 \<and> length (data p) \<le> max_alloc"
  by (auto simp: text_ok_def max_alloc_def)

lemma Packet_WriteTo_buffer:
  assumes "text_ok p" and "room w = None"
  shows "Packet_WriteTo p w = Ret (length (text_frame p), None, w\<lparr>written := written w @ text_frame p\<rparr>)"
proof -
  from text_okD [OF assms(1)] have "msgType p \<le> 1" "length (data p) \<le> max_alloc" by simp_all
  from Packet_WriteTo_frame [OF this, of w] assms(2) show ?thesis
    by (auto intro!: writer_eqI)
qed

lemma packet2_WriteTo_buffer:
  "room w = None \<Longrightarrow>
   packet2_WriteTo p w = Ret (length (xhr2_frame p), None, w\<lparr>written := written w @ xhr2_frame p\<rparr>)"
  using packet2_WriteTo_frame [of p w] by (auto intro!: writer_eqI)

lemma Payload_WriteTo_text:
  "\<forall>p \<in> set ps. text_ok p \<Longrightarrow>
   Payload_WriteTo \<lparr>packets = ps, xhr2 = False\<rparr> new_buffer =
     Ret (length (concat (map text_frame ps)), None,
          new_buffer\<lparr>written := concat (map text_frame ps)\<rparr>)"
  using write_packets_frames [of ps Packet_WriteTo text_frame new_buffer 0]
  by (auto simp: Payload_WriteTo_def Packet_WriteTo_buffer)

lemma Payload_WriteTo_xhr2:
  "Payload_WriteTo \<lparr>packets = ps, xhr2 = True\<rparr> new_buffer =
     Ret (length (concat (map xhr2_frame ps)), None,
          new_buffer\<lparr>written := concat (map xhr2_frame ps)\<rparr>)"
  using write_packets_frames [of ps packet2_WriteTo xhr2_frame new_buffer 0]
  by (auto simp: Payload_WriteTo_def packet2_WriteTo_buffer)

section \<open>Properties\<close>

text \<open>
  C10. Text payloads round-trip. Writing any sequence of packets that the text framing can
  carry (string packets of any type but the one that would be written as \<open>b\<close>, binary packets with at
  most 768 bytes) into a buffer succeeds and reports its
  length; reading the result back when it arrives in one segment ends without error, consumes
  everything, counts every byte, and yields the packets in order, each as the framing shows it:
  string packets and binary packets whose length is a multiple of three unchanged, other binary
  packets padded with zero bytes.
\<close>

theorem payload_text_roundtrip:
  assumes "\<forall>p \<in> set ps. text_ok p"
  shows "\<exists>w. Payload_WriteTo \<lparr>packets = ps, xhr2 = False\<rparr> new_buffer = Ret (length (written w), None, w)
    \<and> Payload_ReadFrom \<lparr>packets = [], xhr2 = False\<rparr> [written w] =
        Ret (of_nat (length (written w)), None, \<lparr>packets = map text_seen ps, xhr2 = False\<rparr>, [])
    \<and> (\<forall>p \<in> set ps. (text_seen p = p) \<longleftrightarrow>
         (msgType p = MessageTypeString \<or> length (data p) mod 3 = 0))"
proof -
  have "(text_seen p = p) \<longleftrightarrow> (msgType p = MessageTypeString \<or> length (data p) mod 3 = 0)"
    if "text_ok p" for p
  proof -
    have "(length (data p) + 2) div 3 * 3 - length (data p) = 0 \<longleftrightarrow> length (data p) mod 3 = 0"
      by presburger
    with that show ?thesis
      by (cases p) (auto simp: text_seen_def text_ok_def pad3_def)
  qed
  with assms Payload_WriteTo_text [OF assms] textF.loop_frames [OF assms, of "[]" 0]
  show ?thesis by (auto simp: Payload_ReadFrom_def)
qed

theorem payload_text_roundtrip_witness:
  "\<exists>w. Payload_WriteTo \<lparr>packets = [\<lparr>msgType = 0, pktType = 4, data = asc ''HELLO!''\<rparr>,
        \<lparr>msgType = 1, pktType = 4, data = [1, 2, 3, 4]\<rparr>], xhr2 = False\<rparr> new_buffer
      = Ret (length (written w), None, w)
    \<and> Payload_ReadFrom \<lparr>packets = [], xhr2 = False\<rparr> [written w] =
        Ret (of_nat (length (written w)), None,
          \<lparr>packets = [\<lparr>msgType = 0, pktType = 4, data = asc ''HELLO!''\<rparr>,
             \<lparr>msgType = 1, pktType = 4, data = [1, 2, 3, 4, 0, 0]\<rparr>], xhr2 = False\<rparr>, [])"
proof -
  let ?ps = "[\<lparr>msgType = 0, pktType = 4, data = asc ''HELLO!''\<rparr>,
        \<lparr>msgType = 1, pktType = 4, data = [1, 2, 3, 4]\<rparr>]"
  have ok: "\<forall>p \<in> set ?ps. text_ok p" by (simp add: text_ok_def max_alloc_def asc_def)
  have seen: "map text_seen ?ps = [\<lparr>msgType = 0, pktType = 4, data = asc ''HELLO!''\<rparr>,
             \<lparr>msgType = 1, pktType = 4, data = [1, 2, 3, 4, 0, 0]\<rparr>]"
    by code_simp
  from payload_text_roundtrip [OF ok] show ?thesis unfolding seen by blast
qed

text \<open>
  C9. XHR2 payloads round-trip exactly: writing packets of valid message type into a buffer
  and reading the bytes back from one segment yields the same packets, all bytes counted
  and consumed, whatever the packet types and the data.
\<close>

theorem payload_xhr2_roundtrip:
  assumes "\<forall>p \<in> set ps. xhr2_ok p"
  shows "\<exists>w. Payload_WriteTo \<lparr>packets = ps, xhr2 = True\<rparr> new_buffer = Ret (length (written w), None, w)
    \<and> Payload_ReadFrom \<lparr>packets = [], xhr2 = True\<rparr> [written w] =
        Ret (of_nat (length (written w)), None, \<lparr>packets = ps, xhr2 = True\<rparr>, [])"
  using Payload_WriteTo_xhr2 [of ps] xhr2F.loop_frames [OF assms, of "[]" 0]
  by (auto simp: Payload_ReadFrom_def)

theorem payload_xhr2_roundtrip_witness:
  "\<exists>w. Payload_WriteTo \<lparr>packets = [\<lparr>msgType = 1, pktType = 4, data = [1, 2, 255, 4]\<rparr>], xhr2 = True\<rparr>
        new_buffer = Ret (length (written w), None, w)
    \<and> Payload_ReadFrom \<lparr>packets = [], xhr2 = True\<rparr> [written w] =
        Ret (of_nat (length (written w)), None,
          \<lparr>packets = [\<lparr>msgType = 1, pktType = 4, data = [1, 2, 255, 4]\<rparr>], xhr2 = True\<rparr>, [])"
  using payload_xhr2_roundtrip [of "[\<lparr>msgType = 1, pktType = 4, data = [1, 2, 255, 4]\<rparr>]"]
  by (simp add: xhr2_ok_def max_alloc_def)

lemma write_packets_prefix:
  "\<forall>p \<in> set ps. msgType p \<le> 1 \<and> length (data p) \<le> max_alloc \<Longrightarrow>
   \<exists>n err w'. write_packets Packet_WriteTo ps n0 w = Ret (n0 + n, err, w') \<and>
     n \<le> length (concat (map text_frame ps)) \<and>
     written w' = written w @ take n (concat (map text_frame ps)) \<and>
     (err = None \<longleftrightarrow> n = length (concat (map text_frame ps)))"
proof (induction ps arbitrary: n0 w)
  case Nil
  then show ?case by simp
next
  case (Cons p ps)
  let ?f = "text_frame p"
  from Cons.prems Packet_WriteTo_frame [of p w] obtain n1 e1 w1
    where p: "Packet_WriteTo p w = Ret (n1, e1, w1)" "n1 \<le> length ?f"
      "written w1 = written w @ take n1 ?f" "e1 = None \<longleftrightarrow> n1 = length ?f"
    by auto
  show ?case
  proof (cases e1)
    case None
    from Cons obtain n err w'
      where "write_packets Packet_WriteTo ps (n0 + n1) w1 = Ret (n0 + n1 + n, err, w') \<and>
        n \<le> length (concat (map text_frame ps)) \<and>
        written w' = written w1 @ take n (concat (map text_frame ps)) \<and>
        (err = None \<longleftrightarrow> n = length (concat (map text_frame ps)))"
      by fastforce
    with p None show ?thesis
      by (intro exI [of _ "n1 + n"] exI [of _ err] exI [of _ w']) (simp add: add.assoc)
  next
    case (Some e)
    with p show ?thesis
      by (intro exI [of _ n1] exI [of _ e1] exI [of _ w1]) auto
  qed
qed

text \<open>
  C37. Writing a text payload to a writer of any capacity never panics on packets of valid
  type: it writes a prefix of the concatenated frames, the returned count is exactly the
  number of bytes written, and the error is absent exactly when every frame was written.
\<close>

theorem payload_text_write_count:
  assumes "\<forall>p \<in> set ps. msgType p \<le> 1 \<and> length (data p) \<le> max_alloc"
  shows "\<exists>n err w'. Payload_WriteTo \<lparr>packets = ps, xhr2 = False\<rparr> w = Ret (n, err, w') \<and>
     written w' = written w @ take n (concat (map text_frame ps)) \<and>
     n \<le> length (concat (map text_frame ps)) \<and>
     (err = None \<longleftrightarrow> n = length (concat (map text_frame ps)))"
  using write_packets_prefix [OF assms, of 0 w] by (cases ps) (auto simp: Payload_WriteTo_def)

theorem payload_text_write_count_witness:
  "\<exists>n err w'. Payload_WriteTo \<lparr>packets = [\<lparr>msgType = 0, pktType = 2, data = asc ''probe''\<rparr>], xhr2 = False\<rparr>
       \<lparr>written = [], room = Some 4\<rparr> = Ret (n, err, w') \<and>
     written w' = take n (asc ''6:2probe'') \<and> (err = None \<longleftrightarrow> n = 8)"
proof -
  let ?p = "\<lparr>msgType = 0, pktType = 2, data = asc ''probe''\<rparr>"
  have ok: "\<forall>p \<in> set [?p]. msgType p \<le> 1 \<and> length (data p) \<le> max_alloc"
    by (simp add: max_alloc_def asc_def)
  have f: "concat (map text_frame [?p]) = asc ''6:2probe''" by code_simp
  have l: "length (asc ''6:2probe'') = 8" by (simp add: asc_def)
  from payload_text_write_count [OF ok, of "\<lparr>written = [], room = Some 4\<rparr>", unfolded f l]
  show ?thesis by auto
qed

text \<open>
  Binary data beyond 768 bytes is not recovered from the text framing: the decoder makes
  a single \<open>Read\<close> call on the base64 decoder, so it returns the first 768 bytes followed by
  zeros, reports no error and counts the frame as consumed, while the rest of the encoded
  text stays in the stream and is parsed as the next packet.
\<close>

theorem packet_decode_oversize:
  assumes "msgType p = MessageTypeBinary" and "768 < length (data p)"
    and "(length (data p) + 2) div 3 * 4 \<le> max_alloc"
  shows "Packet_decode zero_packet [text_frame p @ rest] =
    Ret (of_nat (length (text_frame p)), None,
         p\<lparr>data := take 768 (data p) @ replicate ((length (data p) + 2) div 3 * 3 - 768) 0\<rparr>,
         [b64_encode (drop 768 (data p)) @ rest])"
proof -
  let ?q = "(length (data p) + 2) div 3"
  have q: "?q * 3 \<le> max_alloc" "?q * 3 \<noteq> 0" "768 \<le> ?q * 3" using assms(2,3) by simp_all
  have d: "DecodedLen (of_nat (?q * 4)) = of_nat (?q * 3)"
    using assms(3) by (subst DecodedLen_of_nat) (simp_all add: max_alloc_def)
  have "filled (?q * 3) (take 768 (data p)) = take 768 (data p) @ replicate (?q * 3 - 768) 0"
    using filled_short [of "take 768 (data p)" "?q * 3"] assms(2) q(3) by simp
  with q d assms b64_Read_oversize [of "data p" "?q * 3" rest] show ?thesis
    by (cases p) (simp add: Packet_decode_def decodeHead_def text_frame_def head_loop_dec
        makeslice_ok_of_nat unat_of_nat_goint Let_def zero_packet_def b64_encode_length
        del: of_nat_mult)
qed

theorem packet_decode_oversize_witness:
  "let p = \<lparr>msgType = 1, pktType = 4, data = replicate 770 7\<rparr> in
   \<exists>p' rest. Packet_decode zero_packet [text_frame p @ []] =
     Ret (of_nat (length (text_frame p)), None, p', rest) \<and> p' \<noteq> p \<and> rest \<noteq> [[]]"
proof -
  let ?p = "\<lparr>msgType = 1, pktType = 4, data = replicate 770 (7 :: byte)\<rparr>"
  have "b64_encode (drop 768 (replicate 770 (7 :: byte))) = b64_encode [7, 7]"
    by (simp add: numeral_2_eq_2)
  moreover have "take 768 (replicate 770 (7 :: byte)) @ replicate (772 div 3 * 3 - 768) 0
      \<noteq> replicate 770 7"
    by (auto dest: arg_cong [of _ _ length])
  ultimately show ?thesis
    using packet_decode_oversize [of ?p "[]"]
    by (simp add: max_alloc_def Let_def)
qed

text \<open>
  C40. A payload whose packet declares length zero makes the reader panic: the declared
  length counts the type byte, and \<open>length--\<close> turns zero into \<open>make([]byte, -1)\<close>. This
  holds after any packets that were read before, in the XHR2 framing whatever byte follows, and in
  the text framing unless the byte that follows is the \<open>b\<close> of a base64 packet, whose decoded length
  is then zero.
\<close>

theorem payload_zero_length_panics:
  assumes "c \<noteq> 0x62" and "m \<le> 1"
    and "\<forall>p \<in> set ps. text_ok p" and "\<forall>p \<in> set qs. xhr2_ok p"
  shows "Payload_ReadFrom \<lparr>packets = [], xhr2 = False\<rparr>
           [concat (map text_frame ps) @ asc ''0:'' @ c # rest] = Panic
    \<and> Payload_ReadFrom \<lparr>packets = [], xhr2 = True\<rparr>
           [concat (map xhr2_frame qs) @ [m, 0xFF, c] @ rest] = Panic"
proof -
  have d0: "dec 0 = [0x30]" by code_simp
  have "Packet_decode zero_packet [dec 0 @ 0x3A # c # rest] = Panic"
    using assms(1)
    by (simp add: Packet_decode_def decodeHead_def head_loop_dec Let_def zero_packet_def)
  then have "Packet_decode zero_packet [asc ''0:'' @ c # rest] = Panic"
    by (simp add: d0 asc_def)
  then have 1: "Payload_ReadFrom \<lparr>packets = [], xhr2 = False\<rparr>
           [concat (map text_frame ps) @ asc ''0:'' @ c # rest] = Panic"
    using textF.loop_frames_then [OF assms(3), of "[]" 0]
    by (simp add: Payload_ReadFrom_def read_packets.simps)
  have "packet2_decode zero_packet [[m, 0xFF, c] @ rest] = Panic"
    using assms(2) head2_loop.simps [of 1 0 "[0xFF # c # rest]"]
    by (simp add: packet2_decode_def packet2_decodeHead_def Let_def not_less)
  then have "Payload_ReadFrom \<lparr>packets = [], xhr2 = True\<rparr>
           [concat (map xhr2_frame qs) @ [m, 0xFF, c] @ rest] = Panic"
    using xhr2F.loop_frames_then [OF assms(4), of "[]" 0]
    by (simp add: Payload_ReadFrom_def read_packets2.simps)
  with 1 show ?thesis ..
qed

theorem payload_zero_length_panics_witness:
  "Payload_ReadFrom \<lparr>packets = [], xhr2 = False\<rparr> [asc ''0:4''] = Panic \<and>
   Payload_ReadFrom \<lparr>packets = [], xhr2 = True\<rparr> [[0, 0xFF, 0x34]] = Panic"
  using payload_zero_length_panics [of "0x34" 0 "[]" "[]" "[]"] by (simp add: asc_def)

text \<open>
  A short read goes unnoticed. When the data of a string packet arrives in two segments,
  the decoder's single \<open>Read\<close> returns the first segment's part; the packet is delivered
  without error, with zero bytes in place of the missing part, and the missing part is what
  the next packet is decoded from.
\<close>

theorem packet_decode_split_segment:
  assumes "t \<noteq> 0x32" and "d1 \<noteq> []" and "d2 \<noteq> []" and "length (d1 @ d2) \<le> max_alloc"
  shows "Packet_decode zero_packet
      [dec (length (d1 @ d2) + 1) @ [0x3A, t + 0x30] @ d1, d2 @ rest] =
    Ret (of_nat (length (dec (length (d1 @ d2) + 1)) + 2 + length (d1 @ d2)), None,
         \<lparr>msgType = MessageTypeString, pktType = t, data = d1 @ replicate (length d2) 0\<rparr>,
         [[], d2 @ rest])"
proof -
  let ?l = "length (d1 @ d2)"
  have "t + 0x30 \<noteq> 0x62" using assms(1) eq_diff_eq [of t "0x62" "0x30"] by simp
  then have h: "decodeHead zero_packet [dec (?l + 1) @ [0x3A, t + 0x30] @ d1, d2 @ rest] =
      (of_nat (length (dec (?l + 1)) + 2), of_nat ?l, None,
       \<lparr>msgType = MessageTypeString, pktType = t, data = []\<rparr>, [d1, d2 @ rest])"
    by (simp add: decodeHead_def head_loop_dec zero_packet_def)
  have r: "Read ?l [d1, d2 @ rest] = (d1, None, [[], d2 @ rest])"
    using assms(2) by (cases d1) simp_all
  have l: "(of_nat ?l :: goint) \<noteq> 0" "unat (of_nat ?l :: goint) = ?l" "makeslice_ok (of_nat ?l)"
    using assms(2,4) by (simp_all only: of_nat_goint_0 unat_of_nat_goint makeslice_ok_of_nat) simp
  have "filled ?l d1 = d1 @ replicate (length d2) 0" by (simp add: filled_short)
  with l r show ?thesis
    unfolding Packet_decode_def h by (simp del: length_append)
qed

theorem packet_decode_split_segment_witness:
  "Packet_decode zero_packet [asc ''6:2pr'', asc ''obe''] =
     Ret (8, None, \<lparr>msgType = 0, pktType = 2, data = asc ''pr'' @ [0, 0, 0]\<rparr>, [[], asc ''obe''])"
proof -
  have d: "dec (length (asc ''pr'' @ asc ''obe'') + 1) = [0x36]" by code_simp
  show ?thesis
    using packet_decode_split_segment [of 2 "asc ''pr''" "asc ''obe''" "[]", unfolded d]
    by (simp add: asc_def max_alloc_def numeral_3_eq_3)
qed

end
