(* ===== verification/Fifo.thy ===== *)
theory Fifo
  imports Prelude "HOL-Library.Sublist"
begin

text \<open>
  The contract of everything in the program that hands packets on through a channel: what was
  accepted is what was delivered followed by what is still pending. A step accepts packets at
  the end, delivers the oldest pending packets, or does neither.
\<close>

locale fifo =
  fixes step :: "'s \<Rightarrow> 's \<Rightarrow> bool" and start :: "'s \<Rightarrow> bool"
    and acc :: "'s \<Rightarrow> 'p list" and del :: "'s \<Rightarrow> 'p list" and pend :: "'s \<Rightarrow> 'p list"
  assumes start_ok: "start s \<Longrightarrow> acc s = del s @ pend s"
    and step_ok: "step s s' \<Longrightarrow>
      (\<exists>xs. acc s' = acc s @ xs \<and> pend s' = pend s @ xs \<and> del s' = del s) \<or>
      (\<exists>xs. pend s = xs @ pend s' \<and> del s' = del s @ xs \<and> acc s' = acc s)"
begin

lemma history:
  assumes "start s" and "step\<^sup>*\<^sup>* s t"
  shows "acc t = del t @ pend t"
  using assms(2)
proof (induction rule: rtranclp_induct)
  case base
  then show ?case using start_ok [OF assms(1)] .
next
  case (step t u)
  then show ?case using step_ok [OF step.hyps(2)] by auto
qed

lemma delivered_prefix: "start s \<Longrightarrow> step\<^sup>*\<^sup>* s t \<Longrightarrow> prefix (del t) (acc t)"
  using history by auto

lemma monotone:
  assumes "step\<^sup>*\<^sup>* s t"
  shows "prefix (acc s) (acc t)" and "prefix (del s) (del t)"
  using assms
proof (induction rule: rtranclp_induct)
  case (step t u)
  from step_ok [OF step.hyps(2)] have "prefix (acc t) (acc u)" "prefix (del t) (del u)" by auto
  with step.IH show "prefix (acc s) (acc u)" "prefix (del s) (del u)"
    by (auto intro: prefix_order.trans)
qed simp_all

end

end
