(* ===== verification/Engine_Emitter.thy ===== *)
theory Engine_Emitter
  imports Engine_Payload Fifo
begin

text \<open>
  \<open>engine/emitter.go\<close>: the goroutine that writes the packets of a socket, and the callers of
  \<open>submit\<close> that hand packets to it over a buffered channel. The goroutine is a program counter
  whose transitions are the communication points of \<open>loop\<close> and \<open>flush\<close>; a caller of \<open>submit\<close>
  that has passed the first \<open>select\<close> waits in \<open>subs\<close> for the second. \<open>accepted\<close> and
  \<open>emitted\<close> are histories: the packets whose \<open>submit\<close> returned nil, and the packets that
  were handed to \<open>WritePacket\<close> (whose error the code ignores).
\<close>

datatype loop_pc =
    LoopCheck
  | LoopSelect
  | LoopWrite eioPacket
  | Flush
  | FlushWrite eioPacket
  | Exited

record emitter =
  queue :: "eioPacket list"
  cap :: nat
  closing :: bool
  pc :: loop_pc
  subs :: "eioPacket list"
  accepted :: "eioPacket list"
  emitted :: "eioPacket list"

definition newEmitter :: "nat \<Rightarrow> emitter" where
  "newEmitter bufSize =
     \<lparr>queue = [], cap = bufSize, closing = False, pc = LoopCheck, subs = [], accepted = [], emitted = []\<rparr>"

text \<open>The first \<open>select\<close> of \<open>submit\<close>: an error, or the caller goes on to wait.\<close>

definition submit_check :: "eioPacket \<Rightarrow> emitter \<Rightarrow> goerr + emitter" where
  "submit_check p e = (if closing e then Inl ErrEmitterClosed else Inr (e\<lparr>subs := subs e @ [p]\<rparr>))"

text \<open>The second: every outcome that is ready, an error or the packet sent; none when it blocks.\<close>

definition submit_select :: "eioPacket \<Rightarrow> emitter \<Rightarrow> (goerr option \<times> emitter) list" where
  "submit_select p e =
     (let e = e\<lparr>subs := remove1 p (subs e)\<rparr> in
      go_select
        [(closing e, (Some ErrEmitterClosed, e)),
         (length (queue e) < cap e,
          (None, e\<lparr>queue := queue e @ [p], accepted := accepted e @ [p]\<rparr>))])"

text \<open>\<open>close\<close> closes the \<open>done\<close> channel; its wait ends when the goroutine has exited.\<close>

definition emitter_close :: "emitter \<Rightarrow> emitter" where
  "emitter_close e = e\<lparr>closing := True\<rparr>"

definition close_returns :: "emitter \<Rightarrow> bool" where
  "close_returns e \<longleftrightarrow> pc e = Exited"

text \<open>The moves of the goroutine from its current point, one per ready case.\<close>

definition recv_queue :: "(eioPacket \<Rightarrow> loop_pc) \<Rightarrow> emitter \<Rightarrow> emitter" where
  "recv_queue k e =
     (case queue e of [] \<Rightarrow> e | p # q \<Rightarrow> e\<lparr>queue := q, pc := k p\<rparr>)"

definition loop_moves :: "emitter \<Rightarrow> emitter list" where
  "loop_moves e =
     (case pc e of
        LoopCheck \<Rightarrow> go_select_default [(closing e, e\<lparr>pc := Flush\<rparr>)] (e\<lparr>pc := LoopSelect\<rparr>)
      | LoopSelect \<Rightarrow>
          go_select [(closing e, e\<lparr>pc := Flush\<rparr>), (queue e \<noteq> [], recv_queue LoopWrite e)]
      | LoopWrite p \<Rightarrow> [e\<lparr>pc := LoopCheck, emitted := emitted e @ [p]\<rparr>]
      | Flush \<Rightarrow> go_select_default [(queue e \<noteq> [], recv_queue FlushWrite e)] (e\<lparr>pc := Exited\<rparr>)
      | FlushWrite p \<Rightarrow> [e\<lparr>pc := Flush, emitted := emitted e @ [p]\<rparr>]
      | Exited \<Rightarrow> [])"

text \<open>The interleavings of the goroutine, the callers of \<open>submit\<close> and the caller of \<open>close\<close>.\<close>

inductive emitter_step :: "emitter \<Rightarrow> emitter \<Rightarrow> bool" where
  check: "submit_check p e = Inr e' \<Longrightarrow> emitter_step e e'"
| select: "p \<in> set (subs e) \<Longrightarrow> (r, e') \<in> set (submit_select p e) \<Longrightarrow> emitter_step e e'"
| close: "emitter_step e (emitter_close e)"
| loop: "e' \<in> set (loop_moves e) \<Longrightarrow> emitter_step e e'"

inductive_cases emitter_stepE: "emitter_step e e'"

section \<open>Nothing is lost or reordered\<close>

definition in_flight :: "emitter \<Rightarrow> eioPacket list" where
  "in_flight e = (case pc e of LoopWrite p \<Rightarrow> [p] | FlushWrite p \<Rightarrow> [p] | _ \<Rightarrow> []) @ queue e"

lemma loop_moves_cases:
  assumes "e' \<in> set (loop_moves e)"
  obtains (wrote) p k where "pc e = LoopWrite p \<or> pc e = FlushWrite p" "k = LoopCheck \<or> k = Flush"
      "e' = e\<lparr>pc := k, emitted := emitted e @ [p]\<rparr>"
  | (recv) p q k where "queue e = p # q" "k = LoopWrite p \<or> k = FlushWrite p"
      "pc e = LoopSelect \<or> pc e = Flush" "e' = e\<lparr>queue := q, pc := k\<rparr>"
  | (jump) k where "pc e = LoopCheck \<or> pc e = LoopSelect \<or> pc e = Flush"
      "k = Flush \<or> k = LoopSelect \<or> k = Exited" "e' = e\<lparr>pc := k\<rparr>"
  using assms
  by (cases "pc e"; cases "queue e")
     (auto simp: loop_moves_def go_select_default_def go_select_def recv_queue_def split: if_splits)

interpretation emitterF: fifo emitter_step "\<lambda>e. \<exists>n. e = newEmitter n" accepted emitted in_flight
proof
  fix s assume "\<exists>n. s = newEmitter n"
  then show "accepted s = emitted s @ in_flight s" by (auto simp: newEmitter_def in_flight_def)
next
  fix s s' assume "emitter_step s s'"
  then show "(\<exists>xs. accepted s' = accepted s @ xs \<and> in_flight s' = in_flight s @ xs \<and> emitted s' = emitted s) \<or>
     (\<exists>xs. in_flight s = xs @ in_flight s' \<and> emitted s' = emitted s @ xs \<and> accepted s' = accepted s)"
  proof cases
    case (check p)
    then show ?thesis by (auto simp: submit_check_def in_flight_def split: if_splits loop_pc.splits)
  next
    case (select p r)
    then show ?thesis
      by (auto simp: submit_select_def go_select_def in_flight_def Let_def split: if_splits loop_pc.splits)
  next
    case close
    then show ?thesis by (auto simp: emitter_close_def in_flight_def split: loop_pc.splits)
  next
    case loop
    then show ?thesis by (cases rule: loop_moves_cases) (auto simp: in_flight_def)
  qed
qed

section \<open>Reachable states\<close>

definition emitter_inv :: "nat \<Rightarrow> emitter \<Rightarrow> bool" where
  "emitter_inv n e \<longleftrightarrow>
     cap e = n \<and> length (queue e) \<le> n \<and>
     (pc e \<in> {Flush, Exited} \<union> range FlushWrite \<longrightarrow> closing e)"

lemma emitter_inv_step [inv]: "emitter_step e e' \<Longrightarrow> emitter_inv n e \<Longrightarrow> emitter_inv n e'"
proof (erule emitter_stepE)
  fix p assume "submit_check p e = Inr e'" "emitter_inv n e"
  then show "emitter_inv n e'" by (auto simp: submit_check_def emitter_inv_def split: if_splits)
next
  fix p r assume "(r, e') \<in> set (submit_select p e)" "emitter_inv n e"
  then show "emitter_inv n e'"
    by (auto simp: submit_select_def emitter_inv_def Let_def)
next
  assume "e' = emitter_close e" "emitter_inv n e"
  then show "emitter_inv n e'" by (auto simp: emitter_close_def emitter_inv_def)
next
  assume "e' \<in> set (loop_moves e)" "emitter_inv n e"
  then show "emitter_inv n e'"
    by (cases "pc e"; cases "queue e")
       (auto simp: loop_moves_def emitter_inv_def go_select_default_def recv_queue_def split: if_splits)
qed

lemma emitter_inv_reach: "emitter_step\<^sup>*\<^sup>* (newEmitter n) e \<Longrightarrow> emitter_inv n e"
proof (induction rule: rtranclp_induct)
  case base
  then show ?case by (auto simp: emitter_inv_def newEmitter_def)
next
  case (step e f)
  then show ?case by (blast intro: emitter_inv_step)
qed

section \<open>Closing\<close>

text \<open>With the \<open>done\<close> channel closed each move of the goroutine brings it nearer to its end.\<close>

definition distance :: "emitter \<Rightarrow> nat" where
  "distance e =
     4 * length (queue e) +
     (case pc e of LoopCheck \<Rightarrow> 2 | LoopSelect \<Rightarrow> 2 | LoopWrite _ \<Rightarrow> 3 | Flush \<Rightarrow> 1 | FlushWrite _ \<Rightarrow> 2
      | Exited \<Rightarrow> 0)"

lemma loop_moves_distance:
  "e' \<in> set (loop_moves e) \<Longrightarrow> closing e \<Longrightarrow>
   distance e' < distance e \<and> closing e' \<and> accepted e' = accepted e"
  by (cases "pc e"; cases "queue e")
     (auto simp: loop_moves_def distance_def go_select_default_def recv_queue_def split: if_splits)

lemma loop_run_distance:
  "((\<lambda>e e'. e' \<in> set (loop_moves e)) ^^ k) e e' \<Longrightarrow> closing e \<Longrightarrow>
   k + distance e' \<le> distance e \<and> closing e' \<and> accepted e' = accepted e"
proof (induction k arbitrary: e')
  case (Suc k)
  then obtain f where f: "((\<lambda>e e'. e' \<in> set (loop_moves e)) ^^ k) e f" "e' \<in> set (loop_moves f)" by auto
  with Suc.IH Suc.prems(2) loop_moves_distance [OF f(2)] show ?case by fastforce
qed simp

lemma loop_moves_stuck:
  "closing e \<Longrightarrow> loop_moves e = [] \<Longrightarrow> pc e = Exited"
  by (cases "pc e") (auto simp: loop_moves_def go_select_default_def go_select_def split: if_splits)

lemma loop_run_steps:
  "((\<lambda>e e'. e' \<in> set (loop_moves e)) ^^ k) e e' \<Longrightarrow> emitter_step\<^sup>*\<^sup>* e e'"
proof (induction k arbitrary: e')
  case (Suc k)
  then obtain f where "emitter_step\<^sup>*\<^sup>* e f" "e' \<in> set (loop_moves f)" by auto
  then show ?case by (meson emitter_step.loop rtranclp.rtrancl_into_rtrancl)
qed simp

text \<open>Only the goroutine itself takes the queue; it leaves \<open>Flush\<close> when the queue is empty.\<close>

lemma loop_exit_empty:
  "((\<lambda>e e'. e' \<in> set (loop_moves e)) ^^ k) e e' \<Longrightarrow> pc e \<noteq> Exited \<Longrightarrow> pc e' = Exited \<Longrightarrow> queue e' = []"
proof (induction k arbitrary: e')
  case (Suc k)
  then obtain f where "e' \<in> set (loop_moves f)" by auto
  with Suc.prems(3) show ?case
    by (cases "pc f"; cases "queue f")
       (auto simp: loop_moves_def go_select_default_def recv_queue_def split: if_splits)
qed simp

section \<open>Properties\<close>

text \<open>
  C3. Under every interleaving of submitters, closer and goroutine, the packets handed to the
  connection, then the one being written and the queued ones, are exactly the packets accepted,
  in the order of acceptance; the queue keeps its bound, and only a closed emitter stops.
\<close>
theorem emitter_fifo:
  assumes "emitter_step\<^sup>*\<^sup>* (newEmitter n) e"
  shows "accepted e = emitted e @ in_flight e \<and> length (queue e) \<le> n \<and> (pc e = Exited \<longrightarrow> closing e)"
  using emitterF.history [OF _ assms] emitter_inv_reach [OF assms] by (auto simp: emitter_inv_def)

text \<open>One packet accepted and written.\<close>
theorem emitter_fifo_witness:
  "\<exists>e. emitter_step\<^sup>*\<^sup>* (newEmitter 8) e \<and> emitted e = [zero_packet] \<and>
     accepted e = emitted e @ in_flight e \<and> length (queue e) \<le> 8 \<and> (pc e = Exited \<longrightarrow> closing e)"
proof -
  let ?e1 = "(newEmitter 8)\<lparr>subs := [zero_packet]\<rparr>"
  let ?e2 = "?e1\<lparr>subs := [], queue := [zero_packet], accepted := [zero_packet]\<rparr>"
  let ?e3 = "?e2\<lparr>pc := LoopSelect\<rparr>"
  let ?e4 = "?e3\<lparr>queue := [], pc := LoopWrite zero_packet\<rparr>"
  let ?e5 = "?e4\<lparr>pc := LoopCheck, emitted := [zero_packet]\<rparr>"
  have "emitter_step (newEmitter 8) ?e1"
    by (rule emitter_step.check [of zero_packet]) (simp add: submit_check_def newEmitter_def)
  moreover have "emitter_step ?e1 ?e2"
    by (rule emitter_step.select [of zero_packet _ None])
       (simp_all add: submit_select_def newEmitter_def go_eval)
  moreover have "emitter_step ?e2 ?e3" "emitter_step ?e3 ?e4" "emitter_step ?e4 ?e5"
    by (rule emitter_step.loop; simp add: loop_moves_def newEmitter_def go_eval recv_queue_def)+
  ultimately have r: "emitter_step\<^sup>*\<^sup>* (newEmitter 8) ?e5" by (meson converse_rtranclp_into_rtranclp rtranclp.rtrancl_refl)
  show ?thesis using emitter_fifo [OF r] r by (intro exI [of _ ?e5]) simp
qed





text \<open>
  C39. The two \<open>select\<close>s of \<open>submit\<close> leave a window: a caller that passed the check before
  \<open>close\<close> can still send after the goroutine has drained the channel and exited. Its \<open>submit\<close>
  returns nil and \<open>close\<close> returns, but the packet is never written.
\<close>
theorem emitter_accepts_after_exit:
  "\<exists>e. emitter_step\<^sup>*\<^sup>* (newEmitter 8) e \<and> close_returns e \<and> loop_moves e = [] \<and>
     accepted e = [p] \<and> emitted e = []"
proof -
  let ?e1 = "(newEmitter 8)\<lparr>subs := [p]\<rparr>"
  let ?e2 = "emitter_close ?e1"
  let ?e3 = "?e2\<lparr>pc := Flush\<rparr>"
  let ?e4 = "?e3\<lparr>pc := Exited\<rparr>"
  let ?e5 = "?e4\<lparr>subs := [], queue := [p], accepted := [p]\<rparr>"
  have "emitter_step (newEmitter 8) ?e1"
    by (rule emitter_step.check [of p]) (simp add: submit_check_def newEmitter_def)
  moreover have "emitter_step ?e1 ?e2" by (rule emitter_step.close)
  moreover have "emitter_step ?e2 ?e3" "emitter_step ?e3 ?e4"
    by (rule emitter_step.loop; simp add: loop_moves_def emitter_close_def newEmitter_def go_eval)+
  moreover have "emitter_step ?e4 ?e5"
    by (rule emitter_step.select [of p _ None])
       (simp_all add: submit_select_def emitter_close_def newEmitter_def go_eval)
  ultimately have "emitter_step\<^sup>*\<^sup>* (newEmitter 8) ?e5"
    by (meson converse_rtranclp_into_rtranclp rtranclp.rtrancl_refl)
  then show ?thesis
    by (intro exI [of _ ?e5]) (simp add: close_returns_def loop_moves_def emitter_close_def newEmitter_def)
qed

end
