(* ===== verification/Engine_Socket.thy ===== *)
theory Engine_Socket
  imports Engine_Emitter Go_Json
begin

text \<open>
  \<open>engine/socket.go\<close> and \<open>engine/handle.go\<close>: the socket's \<open>Emit\<close> and \<open>Close\<close>, and the table of
  event handlers. Seen by one caller at a time, the emitter behind a socket is the list of
  packets it accepted and the number of packets it will still accept before another goroutine
  closes it (\<open>None\<close>: it is not closed while the caller runs); \<open>sink\<close> is the contract that
  this view and the emitter with all its interleavings share.
\<close>

section \<open>Event handlers\<close>

type_synonym eventHandlers = "event \<rightharpoonup> nat"

definition newEventHandlers :: eventHandlers where
  "newEventHandlers = Map.empty"

definition On :: "event \<Rightarrow> nat \<Rightarrow> eventHandlers \<Rightarrow> eventHandlers" where
  "On ev callable h = h(ev \<mapsto> callable)"

text \<open>\<open>fire\<close>: the call that is made, if a handler is registered.\<close>

definition fire :: "event \<Rightarrow> byte \<Rightarrow> bytes \<Rightarrow> eventHandlers \<Rightarrow> (nat \<times> byte \<times> bytes) list" where
  "fire ev typ dat h = (case h ev of None \<Rightarrow> [] | Some c \<Rightarrow> [(c, typ, dat)])"

section \<open>Sockets\<close>

record eioSocket =
  sid :: bytes
  transportName :: bytes
  out :: "eioPacket list"
  life :: "nat option"

definition new_eioSocket :: "bytes \<Rightarrow> eioSocket" where
  "new_eioSocket i = \<lparr>sid = i, transportName = [], out = [], life = None\<rparr>"

definition submit :: "eioPacket \<Rightarrow> eioSocket \<Rightarrow> goerr option \<times> eioSocket" where
  "submit p s =
     (case life s of
        Some 0 \<Rightarrow> (Some ErrEmitterClosed, s)
      | Some (Suc n) \<Rightarrow> (None, s\<lparr>out := out s @ [p], life := Some n\<rparr>)
      | None \<Rightarrow> (None, s\<lparr>out := out s @ [p]\<rparr>))"

definition Socket_Close :: "eioSocket \<Rightarrow> eioSocket" where
  "Socket_Close s = s\<lparr>life := Some 0\<rparr>"

text \<open>The argument of \<open>Emit\<close> is bytes, a string, or a value for \<open>json.Marshal\<close>.\<close>

datatype emit_arg = ArgBytes bytes | ArgString bytes | ArgJson gval

definition event_packet :: "event \<Rightarrow> byte option" where
  "event_packet ev =
     (case ev of
        EventOpen \<Rightarrow> Some PacketTypeOpen
      | EventMessage \<Rightarrow> Some PacketTypeMessage
      | EventClose \<Rightarrow> Some PacketTypeClose
      | EventPing \<Rightarrow> Some PacketTypePing
      | EventPong \<Rightarrow> Some PacketTypePong
      | _ \<Rightarrow> None)"

definition emit_data :: "emit_arg \<Rightarrow> goerr + bytes" where
  "emit_data a =
     (case a of
        ArgBytes d \<Rightarrow> Inr d
      | ArgString t \<Rightarrow> Inr t
      | ArgJson v \<Rightarrow> (case json_marshal v of None \<Rightarrow> Inl JsonError | Some x \<Rightarrow> Inr x))"

definition Socket_Emit :: "event \<Rightarrow> byte \<Rightarrow> emit_arg \<Rightarrow> eioSocket \<Rightarrow> goerr option \<times> eioSocket" where
  "Socket_Emit ev mt arg s =
     (case event_packet ev of
        None \<Rightarrow> (None, s)
      | Some pt \<Rightarrow>
          (case emit_data arg of
             Inl e \<Rightarrow> (Some e, s)
           | Inr d \<Rightarrow> submit \<lparr>msgType = mt, pktType = pt, data = d\<rparr> s))"

definition Send :: "emit_arg \<Rightarrow> eioSocket \<Rightarrow> goerr option \<times> eioSocket" where
  "Send arg s = Socket_Emit EventMessage MessageTypeString arg s"

section \<open>The contract of a packet sink\<close>

text \<open>
  Callers submit packets one after the other and stop at the first error, as \<open>emitPacket\<close> of
  \<open>socket.go\<close> does.
\<close>

inductive submits ::
  "('p \<Rightarrow> 's \<Rightarrow> goerr option \<Rightarrow> 's \<Rightarrow> bool) \<Rightarrow> 'p list \<Rightarrow> 's \<Rightarrow> goerr option \<Rightarrow> 's \<Rightarrow> bool" for sub where
  submits_done: "submits sub [] s None s"
| submits_next: "sub p s None s' \<Longrightarrow> submits sub ps s' r t \<Longrightarrow> submits sub (p # ps) s r t"
| submits_stop: "sub p s (Some e) s' \<Longrightarrow> submits sub (p # ps) s (Some e) s'"

locale sink =
  fixes sub :: "'p \<Rightarrow> 's \<Rightarrow> goerr option \<Rightarrow> 's \<Rightarrow> bool" and acc :: "'s \<Rightarrow> 'p list" and dead :: "'s \<Rightarrow> bool"
  assumes sub_ok: "sub p s None s' \<Longrightarrow> acc s' = acc s @ [p]"
    and sub_err: "sub p s (Some e) s' \<Longrightarrow> acc s' = acc s \<and> e = ErrEmitterClosed \<and> dead s'"
begin

lemma submits_prefix:
  "submits sub ps s r t \<Longrightarrow>
   \<exists>k \<le> length ps. acc t = acc s @ take k ps \<and> (r = None \<longleftrightarrow> k = length ps) \<and>
     (r \<noteq> None \<longrightarrow> r = Some ErrEmitterClosed \<and> dead t)"
proof (induction rule: submits.induct)
  case (submits_done s)
  then show ?case by simp
next
  case (submits_next p s s' ps r t)
  then obtain k where "k \<le> length ps" "acc t = acc s' @ take k ps" "r = None \<longleftrightarrow> k = length ps"
    "r \<noteq> None \<longrightarrow> r = Some ErrEmitterClosed \<and> dead t" by blast
  with sub_ok [OF submits_next.hyps(1)] show ?case by (intro exI [of _ "Suc k"]) simp
next
  case (submits_stop p s e s' ps)
  with sub_err [OF submits_stop] show ?case by (intro exI [of _ 0]) simp
qed

end

text \<open>A call of \<open>submit\<close> on the emitter: while it waits the goroutine runs and \<open>close\<close> may come.\<close>

inductive emitter_other :: "emitter \<Rightarrow> emitter \<Rightarrow> bool" where
  other_loop: "e' \<in> set (loop_moves e) \<Longrightarrow> emitter_other e e'"
| other_close: "emitter_other e (emitter_close e)"

definition emitter_submit :: "eioPacket \<Rightarrow> emitter \<Rightarrow> goerr option \<Rightarrow> emitter \<Rightarrow> bool" where
  "emitter_submit p e r e' \<longleftrightarrow>
     (case submit_check p e of
        Inl err \<Rightarrow> r = Some err \<and> e' = e
      | Inr e1 \<Rightarrow> \<exists>e2. emitter_other\<^sup>*\<^sup>* e1 e2 \<and> (r, e') \<in> set (submit_select p e2))"

lemma emitter_other_accepted: "emitter_other\<^sup>*\<^sup>* e e' \<Longrightarrow> accepted e' = accepted e"
proof (induction rule: rtranclp_induct)
  case (step e1 e2)
  from step.hyps(2) have "accepted e2 = accepted e1"
    by (cases rule: emitter_other.cases) (auto simp: emitter_close_def elim: loop_moves_cases)
  with step.IH show ?case by simp
qed simp

interpretation emitterS: sink emitter_submit accepted closing
proof
  fix p s s' assume "emitter_submit p s None s'"
  then show "accepted s' = accepted s @ [p]"
    by (auto simp: emitter_submit_def submit_check_def submit_select_def Let_def
        dest!: emitter_other_accepted split: if_splits)
next
  fix p s e s' assume "emitter_submit p s (Some e) s'"
  then show "accepted s' = accepted s \<and> e = ErrEmitterClosed \<and> closing s'"
    by (auto simp: emitter_submit_def submit_check_def submit_select_def Let_def
        dest!: emitter_other_accepted split: if_splits)
qed

interpretation socketS: sink "\<lambda>p s r s'. submit p s = (r, s')" out "\<lambda>s. life s = Some 0"
  by unfold_locales (auto simp: submit_def split: option.splits nat.splits)

text \<open>
  C30. Handing a sequence of packets to the emitter, with its goroutine and \<open>close\<close> interleaved
  at will, has the outcome that the sequential view allows: a prefix is accepted in order, all
  of it exactly when no call failed, and a failure means that the emitter is closed.
\<close>
theorem emitter_refines_sink:
  assumes "submits emitter_submit ps e r e'"
  shows "\<exists>k s'. submits (\<lambda>p s r s'. submit p s = (r, s')) ps
      \<lparr>sid = i, transportName = t, out = accepted e, life = k\<rparr> r s' \<and> out s' = accepted e' \<and>
      (r = None \<longleftrightarrow> k = None) \<and> (r \<noteq> None \<longrightarrow> closing e')"
proof -
  obtain k where k: "k \<le> length ps" "accepted e' = accepted e @ take k ps" "r = None \<longleftrightarrow> k = length ps"
    "r \<noteq> None \<longrightarrow> r = Some ErrEmitterClosed \<and> closing e'"
    using emitterS.submits_prefix [OF assms] by blast
  have all: "submits (\<lambda>p s r s'. submit p s = (r, s')) ps \<lparr>sid = i, transportName = t, out = o0, life = None\<rparr>
      None \<lparr>sid = i, transportName = t, out = o0 @ ps, life = None\<rparr>" for o0
  proof (induction ps arbitrary: o0)
    case (Cons p ps)
    from Cons.IH [of "o0 @ [p]"] show ?case
      by (intro submits_next) (auto simp: submit_def)
  qed (simp add: submits_done)
  have some: "submits (\<lambda>p s r s'. submit p s = (r, s')) ps \<lparr>sid = i, transportName = t, out = o0, life = Some m\<rparr>
      (Some ErrEmitterClosed) \<lparr>sid = i, transportName = t, out = o0 @ take m ps, life = Some 0\<rparr>"
    if "m < length ps" for o0 m
    using that
  proof (induction ps arbitrary: o0 m)
    case (Cons p ps)
    show ?case
    proof (cases m)
      case 0
      then show ?thesis by (auto intro!: submits_stop simp: submit_def)
    next
      case (Suc m')
      with Cons.IH [of m' "o0 @ [p]"] Cons.prems show ?thesis
        by (intro submits_next) (auto simp: submit_def)
    qed
  qed simp
  show ?thesis
  proof (cases r)
    case None
    with k all [of "accepted e"] show ?thesis by (intro exI [of _ None]) auto
  next
    case (Some err)
    with k have "k < length ps" "r = Some ErrEmitterClosed" "closing e'" by auto
    with some [of k "accepted e"] k(2) show ?thesis by (intro exI [of _ "Some k"]) auto
  qed
qed

text \<open>A packet accepted by a fresh emitter.\<close>
theorem emitter_refines_sink_witness:
  "\<exists>e' k s'. submits emitter_submit [zero_packet] (newEmitter 8) None e' \<and>
     submits (\<lambda>p s r s'. submit p s = (r, s')) [zero_packet]
      \<lparr>sid = [], transportName = [], out = [], life = k\<rparr> None s' \<and> out s' = accepted e' \<and> k = None"
proof -
  let ?e = "(newEmitter 8)\<lparr>queue := [zero_packet], accepted := [zero_packet]\<rparr>"
  have "emitter_submit zero_packet (newEmitter 8) None ?e"
    by (auto simp: emitter_submit_def submit_check_def submit_select_def newEmitter_def Let_def
        intro!: exI [of _ "(newEmitter 8)\<lparr>subs := [zero_packet]\<rparr>"])
  then have s: "submits emitter_submit [zero_packet] (newEmitter 8) None ?e"
    by (rule submits_next [OF _ submits_done])
  have "accepted (newEmitter 8) = []" by (simp add: newEmitter_def)
  then show ?thesis
    using emitter_refines_sink [OF s, of "[]" "[]"] s by (intro exI [of _ ?e]) auto
qed

section \<open>Sequences of Emit\<close>

lemma Socket_Emit_message:
  "Socket_Emit EventMessage mt (ArgBytes d) s = submit \<lparr>msgType = mt, pktType = PacketTypeMessage, data = d\<rparr> s"
  by (simp add: Socket_Emit_def event_packet_def emit_data_def)

end
