(* ===== verification/Sio_Socket.thy ===== *)
theory Sio_Socket
  imports Sio_Handle Parser_Wire Engine_Socket
begin

text \<open>
  \<open>parser.go\<close> and \<open>socket.go\<close>: the parser interface as a record of its operations, and the
  socket.io connection that uses one: namespaces attached to it with their pending acks, its
  engine.io socket and its decoder. The association list of \<open>acks\<close> stands for the map; its
  order for the iteration order, which Go leaves open.
\<close>

section \<open>Parsers\<close>

record 'd Parser =
  p_encode :: "sioPacket \<Rightarrow> sioPacket \<times> (goerr + (bytes \<times> bytes list))"
  p_decoder :: 'd
  p_add :: "byte \<Rightarrow> bytes \<Rightarrow> 'd \<Rightarrow> (goerr option \<times> 'd) option outcome"
  p_decoded :: "'d \<Rightarrow> sioPacket option \<times> 'd"
  p_parse :: "sioPacket \<Rightarrow> goerr + (bytes \<times> bytes \<times> bytes list)"
  p_args :: args_unmarshaler

definition DefaultParser ::
  "(rtype \<Rightarrow> gval \<Rightarrow> gval option) \<Rightarrow> (rtype \<Rightarrow> bytes \<Rightarrow> goerr + gval) \<Rightarrow> (rtype \<Rightarrow> gval) \<Rightarrow>
     defaultDecoder Parser" where
  "DefaultParser into unbin zero =
     \<lparr>p_encode = Encode, p_decoder = newDefaultDecoder, p_add = Add, p_decoded = yield_packet,
      p_parse = ParseData, p_args = (\<lambda>ts dat buf. Ret (UnmarshalArgs into unbin zero ts dat buf))\<rparr>"

section \<open>Sockets\<close>

record 'd socket =
  engine :: eioSocket
  decoder :: 'd
  acks :: "(bytes \<times> ackHandle) list"

definition newSocket :: "eioSocket \<Rightarrow> 'd Parser \<Rightarrow> 'd socket" where
  "newSocket e P = \<lparr>engine = e, decoder = p_decoder P, acks = []\<rparr>"

definition attachnsp :: "bytes \<Rightarrow> 'd socket \<Rightarrow> 'd socket" where
  "attachnsp nsp s = s\<lparr>acks := AList.update nsp new_ackHandle (acks s)\<rparr>"

definition detachnsp :: "bytes \<Rightarrow> 'd socket \<Rightarrow> 'd socket" where
  "detachnsp nsp s = s\<lparr>acks := AList.delete nsp (acks s)\<rparr>"

text \<open>What user code gets to see: calls of the callbacks it registered.\<close>

datatype errarg = EErr goerr | EData gval

datatype effect =
    Connected nat bytes
  | Disconnected nat bytes
  | NspError nat bytes errarg
  | GlobalError goerr
  | Invoked gofunc "rvalue list"

definition call_nsp :: "nat option \<Rightarrow> (nat \<Rightarrow> effect) \<Rightarrow> effect list" where
  "call_nsp f k = (case f of None \<Rightarrow> [] | Some i \<Rightarrow> [k i])"

text \<open>\<open>detachall\<close>: every namespace is removed, and those that the store knows are notified.\<close>

fun detach_loop :: "(bytes \<rightharpoonup> namespace) \<Rightarrow> (bytes \<times> ackHandle) list \<Rightarrow> effect list" where
  "detach_loop nsps [] = []"
| "detach_loop nsps ((k, _) # r) =
     (case nsps k of None \<Rightarrow> [] | Some n \<Rightarrow> call_nsp (onDisconnect n) (\<lambda>i. Disconnected i k))
     @ detach_loop nsps r"

definition detachall :: "(bytes \<rightharpoonup> namespace) \<Rightarrow> 'd socket \<Rightarrow> 'd socket \<times> effect list" where
  "detachall nsps s = (s\<lparr>acks := []\<rparr>, detach_loop nsps (acks s))"

text \<open>\<open>fireAck\<close>: the panic, the error, or the call that was made.\<close>

definition fireAck ::
  "'d Parser \<Rightarrow> bytes \<Rightarrow> uint64 \<Rightarrow> bytes \<Rightarrow> bytes list \<Rightarrow> 'd socket \<Rightarrow>
     (goerr + call option) outcome \<times> 'd socket" where
  "fireAck P nsp i dat buf s =
     (case map_of (acks s) nsp of
        None \<Rightarrow> (Ret (Inr None), s)
      | Some a \<Rightarrow>
          (case ackHandle_fireAck (p_args P) nsp i dat buf a of
             (r, a') \<Rightarrow> (r, s\<lparr>acks := AList.update nsp a' (acks s)\<rparr>)))"

section \<open>Sending\<close>

fun emit_bins :: "bytes list \<Rightarrow> eioSocket \<Rightarrow> goerr option \<times> eioSocket" where
  "emit_bins [] e = (None, e)"
| "emit_bins (d # ds) e =
     (case Socket_Emit EventMessage MessageTypeBinary (ArgBytes d) e of
        (Some err, e') \<Rightarrow> (Some err, e')
      | (None, e') \<Rightarrow> emit_bins ds e')"

definition emitPacket :: "'d Parser \<Rightarrow> sioPacket \<Rightarrow> 'd socket \<Rightarrow> goerr option \<times> 'd socket" where
  "emitPacket P p s =
     (case snd (p_encode P p) of
        Inl err \<Rightarrow> (Some err, s)
      | Inr (b, bin) \<Rightarrow>
          (case Socket_Emit EventMessage MessageTypeString (ArgBytes b) (engine s) of
             (Some err, e) \<Rightarrow> (Some err, s\<lparr>engine := e\<rparr>)
           | (None, e) \<Rightarrow>
               (case emit_bins bin e of (r, e') \<Rightarrow> (r, s\<lparr>engine := e'\<rparr>))))"

definition emitError :: "'d Parser \<Rightarrow> bytes \<Rightarrow> gval \<Rightarrow> 'd socket \<Rightarrow> goerr option \<times> 'd socket" where
  "emitError P nsp arg s = emitPacket P (mk_packet PacketTypeError nsp arg None) s"

definition ack :: "'d Parser \<Rightarrow> sioPacket \<Rightarrow> 'd socket \<Rightarrow> goerr option \<times> 'd socket" where
  "ack P p s = emitPacket P (p\<lparr>Type := PacketTypeAck\<rparr>) s"

text \<open>
  The loop of \<open>emit\<close> over its arguments: functions become pending acks, the last id wins, other
  values are collected. \<open>reflect.TypeOf(nil)\<close> is a nil \<open>Type\<close>, whose \<open>Kind\<close> panics.
\<close>

fun emit_args ::
  "gval list \<Rightarrow> ackHandle \<Rightarrow> uint64 option \<Rightarrow> (gval list \<times> ackHandle \<times> uint64 option) outcome" where
  "emit_args [] a i = Ret ([], a, i)"
| "emit_args (v # vs) a i =
     (case v of
        GNil \<Rightarrow> Panic
      | GFunc f \<Rightarrow>
          (case onAck v a of
             Panic \<Rightarrow> Panic
           | Ret (j, a') \<Rightarrow> emit_args vs a' (Some j))
      | _ \<Rightarrow>
          (case emit_args vs a i of
             Panic \<Rightarrow> Panic
           | Ret (ws, a', i') \<Rightarrow> Ret (v # ws, a', i')))"

definition emit ::
  "'d Parser \<Rightarrow> bytes \<Rightarrow> bytes \<Rightarrow> gval list \<Rightarrow> 'd socket \<Rightarrow> (goerr option \<times> 'd socket) outcome" where
  "emit P nsp event args s =
     (case map_of (acks s) nsp of
        None \<Rightarrow> Ret (Some ErrorNamespaceUnavaialble, s)
      | Some a \<Rightarrow>
          (case emit_args args a None of
             Panic \<Rightarrow> Panic
           | Ret (vs, a', i) \<Rightarrow>
               Ret (emitPacket P (mk_packet PacketTypeEvent nsp (GList (GStr event # vs)) i)
                      (s\<lparr>acks := AList.update nsp a' (acks s)\<rparr>))))"

definition socket_Close :: "'d socket \<Rightarrow> 'd socket" where
  "socket_Close s = s\<lparr>engine := Socket_Close (engine s)\<rparr>"

definition socket_yield :: "'d Parser \<Rightarrow> 'd socket \<Rightarrow> sioPacket option \<times> 'd socket" where
  "socket_yield P s = (case p_decoded P (decoder s) of (q, d) \<Rightarrow> (q, s\<lparr>decoder := d\<rparr>))"

text \<open>The methods of a socket on the root namespace and on another one.\<close>

definition socket_Emit where
  "socket_Emit P event args s = emit P [0x2F] event args s"

definition socket_EmitError where
  "socket_EmitError P arg s = emitError P [0x2F] arg s"

definition nspSock_Emit where
  "nspSock_Emit P name event args s = emit P name event args s"

definition nspSock_EmitError where
  "nspSock_EmitError P name arg s = emitError P name arg s"

section \<open>What is sent\<close>

text \<open>The engine.io message packets for a sequence of messages.\<close>

definition as_packets :: "(byte \<times> bytes) list \<Rightarrow> eioPacket list" where
  "as_packets ms = map (\<lambda>(mt, d). \<lparr>msgType = mt, pktType = PacketTypeMessage, data = d\<rparr>) ms"

abbreviation "engine_sub \<equiv> (\<lambda>p s r s'. submit p s = (r, s'))"

lemma as_packets_simps [simp]:
  "as_packets [] = []" "as_packets ((mt, d) # ms) = \<lparr>msgType = mt, pktType = PacketTypeMessage, data = d\<rparr> # as_packets ms"
  "length (as_packets ms) = length ms"
  by (simp_all add: as_packets_def)

lemma emit_bins_submits:
  "emit_bins bin e = (r, e') \<Longrightarrow> submits engine_sub (as_packets (map (Pair MessageTypeBinary) bin)) e r e'"
proof (induction bin arbitrary: e)
  case (Cons d ds)
  obtain r1 e1 where s: "submit \<lparr>msgType = MessageTypeBinary, pktType = PacketTypeMessage, data = d\<rparr> e = (r1, e1)"
    by fastforce
  with Cons show ?case
    by (cases r1) (auto simp: Socket_Emit_message intro: submits_next submits_stop)
qed (simp add: submits_done)

lemma emitPacket_submits:
  assumes "p_encode P p = (p', Inr (b, bin))"
  shows "\<exists>r e'. emitPacket P p s = (r, s\<lparr>engine := e'\<rparr>) \<and>
    submits engine_sub (as_packets (messages b bin)) (engine s) r e'"
proof -
  obtain r1 e1 where s: "submit \<lparr>msgType = MessageTypeString, pktType = PacketTypeMessage, data = b\<rparr> (engine s) = (r1, e1)"
    by fastforce
  obtain r2 e2 where b: "emit_bins bin e1 = (r2, e2)" by fastforce
  show ?thesis
  proof (cases r1)
    case None
    with s b assms emit_bins_submits [OF b] show ?thesis
      by (auto simp: emitPacket_def Socket_Emit_message messages_def intro!: submits_next)
  next
    case (Some err)
    with s assms show ?thesis
      by (auto simp: emitPacket_def Socket_Emit_message messages_def intro!: submits_stop)
  qed
qed

lemma submits_open:
  "submits engine_sub ps e r e' \<Longrightarrow> life e = None \<Longrightarrow> r = None \<and> e' = e\<lparr>out := out e @ ps\<rparr>"
proof (induction rule: submits.induct)
  case (submits_next p s s' ps r t)
  then show ?case by (auto simp: submit_def)
next
  case (submits_stop p s e s' ps)
  then show ?case by (simp add: submit_def)
qed simp

lemma emitPacket_open:
  assumes "p_encode P p = (p', Inr (b, bin))" and "life (engine s) = None"
  shows "emitPacket P p s =
    (None, s\<lparr>engine := (engine s)\<lparr>out := out (engine s) @ as_packets (messages b bin)\<rparr>\<rparr>)"
  using emitPacket_submits [OF assms(1), of s] submits_open assms(2) by fastforce

lemma emitPacket_engine:
  "\<exists>r e'. emitPacket P p s = (r, s\<lparr>engine := e'\<rparr>)"
proof (cases "snd (p_encode P p)")
  case (Inl e)
  then show ?thesis by (auto simp: emitPacket_def intro!: exI [of _ "engine s"])
next
  case (Inr x)
  obtain p' b bin where "p_encode P p = (p', Inr (b, bin))"
    using Inr by (metis prod.collapse)
  from emitPacket_submits [OF this, of s] show ?thesis by blast
qed

section \<open>Properties\<close>

text \<open>
  C34. \<open>emit\<close> to an attached namespace sends the text message of one event packet and then
  one binary message per attachment, all of them unless the connection closes on the way: then
  a prefix is sent and the call fails with the emitter's error. Nothing else of the socket
  changes but the namespace's pending acks.
\<close>
theorem emit_sends:
  assumes "map_of (acks s) nsp = Some a" and "emit_args args a None = Ret (vs, a', i)"
    and "p_encode P (mk_packet PacketTypeEvent nsp (GList (GStr ev # vs)) i) = (p', Inr (b, bin))"
  shows "\<exists>r e' k. emit P nsp ev args s =
      Ret (r, s\<lparr>acks := AList.update nsp a' (acks s), engine := e'\<rparr>) \<and>
    out e' = out (engine s) @ take k (as_packets (messages b bin)) \<and> k \<le> Suc (length bin) \<and>
    (r = None \<longleftrightarrow> k = Suc (length bin)) \<and> (r \<noteq> None \<longrightarrow> r = Some ErrEmitterClosed \<and> life e' = Some 0)"
proof -
  let ?p = "mk_packet PacketTypeEvent nsp (GList (GStr ev # vs)) i"
  let ?s = "s\<lparr>acks := AList.update nsp a' (acks s)\<rparr>"
  obtain r e' where r: "emitPacket P ?p ?s = (r, ?s\<lparr>engine := e'\<rparr>)"
    "submits engine_sub (as_packets (messages b bin)) (engine ?s) r e'"
    using emitPacket_submits [OF assms(3)] by blast
  obtain k where k: "k \<le> length (as_packets (messages b bin))"
    "out e' = out (engine s) @ take k (as_packets (messages b bin))"
    "r = None \<longleftrightarrow> k = length (as_packets (messages b bin))"
    "r \<noteq> None \<longrightarrow> r = Some ErrEmitterClosed \<and> life e' = Some 0"
    using socketS.submits_prefix [OF r(2)] by auto
  have "emit P nsp ev args s = Ret (r, s\<lparr>acks := AList.update nsp a' (acks s), engine := e'\<rparr>)"
    using assms r(1) by (simp add: emit_def)
  with k show ?thesis
    by (intro exI [of _ r] exI [of _ e'] exI [of _ k]) (simp add: messages_def)
qed

definition demo_parser :: "defaultDecoder Parser" where
  "demo_parser = DefaultParser (\<lambda>_ v. Some v) demo_unbin (\<lambda>_. GNil)"

definition demo_socket :: "nat option \<Rightarrow> defaultDecoder socket" where
  "demo_socket l = attachnsp [0x2F]
     (newSocket \<lparr>sid = [], transportName = [], out = [], life = l\<rparr> demo_parser)"

text \<open>An event with an attachment on a connection that closes after the first message.\<close>
theorem emit_sends_witness:
  "\<exists>r e' k b. emit demo_parser [0x2F] (asc ''m'') [GBytes [5]] (demo_socket (Some 1)) =
      Ret (r, (demo_socket (Some 1))\<lparr>acks := [([0x2F], new_ackHandle)], engine := e'\<rparr>) \<and>
    out e' = take k (as_packets (messages b [[5]])) \<and> k \<le> 2 \<and>
    (r = None \<longleftrightarrow> k = 2) \<and> (r \<noteq> None \<longrightarrow> r = Some ErrEmitterClosed \<and> life e' = Some 0)"
proof -
  let ?s = "demo_socket (Some 1)"
  have p: "\<exists>p' b. p_encode demo_parser (mk_packet PacketTypeEvent [0x2F] (GList [GStr (asc ''m''), GBytes [5]]) None) =
      (p', Inr (b, [[5]]))"
    by (simp add: demo_parser_def DefaultParser_def Encode_def preprocess_def encodeTo_def json_encode_def Let_def)
  then obtain p' b where e: "p_encode demo_parser
      (mk_packet PacketTypeEvent [0x2F] (GList [GStr (asc ''m''), GBytes [5]]) None) = (p', Inr (b, [[5]]))"
    by blast
  have a: "acks ?s = [([0x2F], new_ackHandle)]" "out (engine ?s) = []"
    by (simp_all add: demo_socket_def attachnsp_def newSocket_def)
  show ?thesis
    using emit_sends [of ?s "[0x2F]" new_ackHandle "[GBytes [5]]" "[GBytes [5]]" new_ackHandle None
        demo_parser "asc ''m''" p' b "[[5]]"] e a
    by (simp add: numeral_2_eq_2) blast
qed

text \<open>
  \<open>emit\<close> and \<open>fireAck\<close> on a namespace that is not attached, or no longer: the first returns
  \<open>ErrorNamespaceUnavaialble\<close>, the second calls nothing, and both leave the socket as it is.
\<close>
theorem detached_namespace_inert:
  "emit P nsp ev args (detachnsp nsp s) = Ret (Some ErrorNamespaceUnavaialble, detachnsp nsp s) \<and>
   fireAck P nsp i dat buf (detachnsp nsp s) = (Ret (Inr None), detachnsp nsp s)"
  by (simp add: emit_def fireAck_def detachnsp_def AList.delete_conv')

text \<open>
  A nil argument makes \<open>emit\<close> panic on an attached namespace, since \<open>reflect.TypeOf(nil)\<close>
  has no kind; so does a callback with a channel or function parameter.
\<close>
theorem emit_nil_panics:
  assumes "map_of (acks s) nsp = Some a" and "\<forall>v \<in> set vs. v \<noteq> GNil \<and> (\<forall>f. v \<noteq> GFunc f)"
    and "x = GNil \<or> (\<exists>f. x = GFunc f \<and> list_ex bad_kind (fn_in f))"
  shows "emit P nsp ev (vs @ x # ws) s = Panic"
proof -
  have "emit_args (x # ws) a j = Panic" for a j
    using assms(3) by (auto simp: onAck_newCallback newCallback_def)
  then have "emit_args (vs @ x # ws) a None = Panic"
    using assms(2) by (induction vs) (auto split: gval.splits)
  with assms(1) show ?thesis by (simp add: emit_def)
qed

text \<open>A nil after a string.\<close>
theorem emit_nil_panics_witness:
  "emit demo_parser [0x2F] (asc ''m'') [GStr [], GNil] (demo_socket None) = Panic"
  using emit_nil_panics [of "demo_socket None" "[0x2F]" new_ackHandle "[GStr []]" GNil demo_parser "asc ''m''" "[]"]
  by (simp add: demo_socket_def attachnsp_def newSocket_def)

end
