(* ===== verification/Sio_Server.thy ===== *)
theory Sio_Server
  imports Sio_Socket
begin

text \<open>
  \<open>server.go\<close> and \<open>client.go\<close>: what each side does with the packets of a connection, and the
  server's handlers for the engine's open, message and close events. Handlers of one connection
  run one after the other in its reading goroutine. \<open>run\<close> gives the results of a user function,
  and the effects of a step are the calls into user code, in their order.
\<close>

section \<open>Processing a packet\<close>

definition nsp_error :: "namespace \<Rightarrow> bytes \<Rightarrow> errarg \<Rightarrow> effect list" where
  "nsp_error n name e = call_nsp (onError n) (\<lambda>i. NspError i name e)"

text \<open>The branch for events, the same in both files.\<close>

definition process_event ::
  "'d Parser \<Rightarrow> (gofunc \<Rightarrow> rvalue list \<Rightarrow> gval list) \<Rightarrow> namespace \<Rightarrow> 'd socket \<Rightarrow> sioPacket \<Rightarrow>
     ('d socket \<times> effect list) outcome" where
  "process_event P run n s p =
     (case p_parse P p of
        Inl e \<Rightarrow> Ret (s, nsp_error n (Namespace p) (EErr e))
      | Inr (event, dat, bin) \<Rightarrow>
          if event = [] then Ret (s, [])
          else (case fireEvent (p_args P) (Namespace p) event dat bin n of
             Panic \<Rightarrow> Panic
           | Ret (Inl e) \<Rightarrow> Ret (s, nsp_error n (Namespace p) (EErr e))
           | Ret (Inr c) \<Rightarrow>
               let effs = (case c of None \<Rightarrow> [] | Some (f, rs) \<Rightarrow> [Invoked f rs]);
                   v = (case c of None \<Rightarrow> [] | Some (f, rs) \<Rightarrow> run f rs)
               in if ID p = None then Ret (s, effs)
                  else (case ack P (p\<lparr>Data := if v = [] then GNil else GList v\<rparr>) s of
                     (None, s') \<Rightarrow> Ret (s', effs)
                   | (Some e, s') \<Rightarrow> Ret (s', effs @ nsp_error n (Namespace p) (EErr e)))))"

text \<open>The branch for acks: the error of \<open>fireAck\<close> is dropped.\<close>

definition process_ack ::
  "'d Parser \<Rightarrow> namespace \<Rightarrow> 'd socket \<Rightarrow> sioPacket \<Rightarrow> ('d socket \<times> effect list) outcome" where
  "process_ack P n s p =
     (case ID p of
        None \<Rightarrow> Ret (s, [])
      | Some i \<Rightarrow>
          (case p_parse P p of
             Inl e \<Rightarrow> Ret (s, nsp_error n (Namespace p) (EErr e))
           | Inr (_, dat, bin) \<Rightarrow>
               (case fireAck P (Namespace p) i dat bin s of
                  (Panic, _) \<Rightarrow> Panic
                | (Ret (Inr (Some (f, rs))), s') \<Rightarrow> Ret (s', [Invoked f rs])
                | (Ret _, s') \<Rightarrow> Ret (s', []))))"

definition Server_process ::
  "'d Parser \<Rightarrow> (gofunc \<Rightarrow> rvalue list \<Rightarrow> gval list) \<Rightarrow> (bytes \<rightharpoonup> namespace) \<Rightarrow> 'd socket \<Rightarrow> sioPacket \<Rightarrow>
     ('d socket \<times> effect list) outcome" where
  "Server_process P run nsps s p =
     (case nsps (Namespace p) of
        None \<Rightarrow>
          Ret (if Type p > PacketTypeDisconnect
               then (snd (emitError P (Namespace p) (GStr (asc ''namespace unavailable'')) s), [])
               else (s, []))
      | Some n \<Rightarrow>
          if Type p = PacketTypeConnect then
            (case emitPacket P (mk_packet PacketTypeConnect (Namespace p) GNil None)
                    (attachnsp (Namespace p) s) of
               (r, s') \<Rightarrow>
                 Ret (s', (case r of None \<Rightarrow> [] | Some e \<Rightarrow> nsp_error n (Namespace p) (EErr e))
                          @ call_nsp (onConnect n) (\<lambda>i. Connected i (Namespace p))))
          else if Type p = PacketTypeDisconnect then
            Ret (detachnsp (Namespace p) s, call_nsp (onDisconnect n) (\<lambda>i. Disconnected i (Namespace p)))
          else if Type p = PacketTypeEvent \<or> Type p = PacketTypeBinaryEvent then process_event P run n s p
          else if Type p = PacketTypeAck \<or> Type p = PacketTypeBinaryAck then process_ack P n s p
          else if Type p = PacketTypeError then Ret (s, nsp_error n (Namespace p) (EData (Data p)))
          else Ret (s, nsp_error n (Namespace p) (EErr ErrUnknownPacket)))"

definition Client_process ::
  "'d Parser \<Rightarrow> (gofunc \<Rightarrow> rvalue list \<Rightarrow> gval list) \<Rightarrow> (bytes \<rightharpoonup> namespace) \<Rightarrow> 'd socket \<Rightarrow> sioPacket \<Rightarrow>
     ('d socket \<times> effect list) outcome" where
  "Client_process P run nsps s p =
     (case nsps (Namespace p) of
        None \<Rightarrow> Ret (s, [])
      | Some n \<Rightarrow>
          if Type p = PacketTypeConnect then
            Ret (attachnsp (Namespace p) s, call_nsp (onConnect n) (\<lambda>i. Connected i (Namespace p)))
          else if Type p = PacketTypeDisconnect then
            Ret (detachnsp (Namespace p) s, call_nsp (onDisconnect n) (\<lambda>i. Disconnected i (Namespace p)))
          else if Type p = PacketTypeEvent \<or> Type p = PacketTypeBinaryEvent then process_event P run n s p
          else if Type p = PacketTypeAck \<or> Type p = PacketTypeBinaryAck then process_ack P n s p
          else if Type p = PacketTypeError then Ret (s, nsp_error n (Namespace p) (EData (Data p)))
          else Ret (s, nsp_error n (Namespace p) (EErr ErrUnknownPacket)))"

text \<open>
  The message handler of a connection, the same in both files: \<open>Add\<close>, report its error, receive
  without blocking, process. \<open>None\<close> when \<open>Add\<close> blocks.
\<close>

definition receive ::
  "'d Parser \<Rightarrow> ('d socket \<Rightarrow> sioPacket \<Rightarrow> ('d socket \<times> effect list) outcome) \<Rightarrow> bool \<Rightarrow> byte \<Rightarrow> bytes \<Rightarrow>
     'd socket \<Rightarrow> ('d socket \<times> effect list) option outcome" where
  "receive P process onErr mt dat s =
     (if mt \<noteq> MessageTypeString \<and> mt \<noteq> MessageTypeBinary then Ret (Some (s, []))
      else (case p_add P mt dat (decoder s) of
         Panic \<Rightarrow> Panic
       | Ret None \<Rightarrow> Ret None
       | Ret (Some (err, d)) \<Rightarrow>
           let effs = (case err of None \<Rightarrow> [] | Some e \<Rightarrow> if onErr then [GlobalError e] else [])
           in (case socket_yield P (s\<lparr>decoder := d\<rparr>) of
                 (None, s') \<Rightarrow> Ret (Some (s', effs))
               | (Some p, s') \<Rightarrow>
                   (case process s' p of
                      Panic \<Rightarrow> Panic
                    | Ret (s'', effs') \<Rightarrow> Ret (Some (s'', effs @ effs'))))))"

section \<open>The server\<close>

record 'd server =
  sockets :: "nat \<rightharpoonup> 'd socket"
  server_onError :: bool
  nsps :: "bytes \<rightharpoonup> namespace"

definition newServer :: "'d server" where
  "newServer = \<lparr>sockets = Map.empty, server_onError = False, nsps = Map.empty\<rparr>"

definition creatensp :: "bytes \<Rightarrow> (bytes \<rightharpoonup> namespace) \<Rightarrow> namespace \<times> (bytes \<rightharpoonup> namespace)" where
  "creatensp nsp m =
     (case m nsp of Some n \<Rightarrow> (n, m) | None \<Rightarrow> (new_namespace, m(nsp \<mapsto> new_namespace)))"

definition Server_OnError :: "'d server \<Rightarrow> 'd server" where
  "Server_OnError S = S\<lparr>server_onError := True\<rparr>"

definition Server_Namespace :: "bytes \<Rightarrow> 'd server \<Rightarrow> namespace \<times> 'd server" where
  "Server_Namespace nsp S = (case creatensp nsp (nsps S) of (n, m) \<Rightarrow> (n, S\<lparr>nsps := m\<rparr>))"

text \<open>The handler for a new connection \<open>i\<close>.\<close>

definition Server_onOpen :: "'d Parser \<Rightarrow> nat \<Rightarrow> eioSocket \<Rightarrow> 'd server \<Rightarrow> 'd server \<times> effect list" where
  "Server_onOpen P i e S =
     (let s = attachnsp [0x2F] (newSocket e P) in
      case creatensp [0x2F] (nsps S) of
        (n, m) \<Rightarrow>
          (case emitPacket P (mk_packet PacketTypeConnect [0x2F] GNil None) s of
             (r, s') \<Rightarrow>
               (S\<lparr>sockets := (sockets S)(i \<mapsto> s'), nsps := m\<rparr>,
                (case r of None \<Rightarrow> [] | Some err \<Rightarrow> nsp_error n [0x2F] (EErr err))
                @ call_nsp (onConnect n) (\<lambda>f. Connected f [0x2F]))))"

definition Server_onMessage ::
  "'d Parser \<Rightarrow> (gofunc \<Rightarrow> rvalue list \<Rightarrow> gval list) \<Rightarrow> nat \<Rightarrow> byte \<Rightarrow> bytes \<Rightarrow> 'd server \<Rightarrow>
     ('d server \<times> effect list) option outcome" where
  "Server_onMessage P run i mt dat S =
     (case sockets S i of
        None \<Rightarrow> Ret (Some (S, []))
      | Some s \<Rightarrow>
          (case receive P (Server_process P run (nsps S)) (server_onError S) mt dat s of
             Panic \<Rightarrow> Panic
           | Ret None \<Rightarrow> Ret None
           | Ret (Some (s', effs)) \<Rightarrow> Ret (Some (S\<lparr>sockets := (sockets S)(i \<mapsto> s')\<rparr>, effs))))"

text \<open>The close handler also gives the connection it let go, with its engine socket closed.\<close>

definition Server_onClose :: "nat \<Rightarrow> 'd server \<Rightarrow> 'd server \<times> 'd socket option \<times> effect list" where
  "Server_onClose i S =
     (case sockets S i of
        None \<Rightarrow> (S, None, [])
      | Some s \<Rightarrow>
          (case detachall (nsps S) (socket_Close s) of
             (s', effs) \<Rightarrow> (S\<lparr>sockets := (sockets S)(i := None)\<rparr>, Some s', effs)))"

section \<open>The client\<close>

record 'd client =
  client_socket :: "'d socket"
  client_nsps :: "bytes \<rightharpoonup> namespace"
  client_onError :: bool

text \<open>
  \<open>NewClient\<close> and, once the engine has a connection, \<open>Dial\<close>, which registers the two handlers below.
  Namespaces may be created and the error handler be set before and after.
\<close>

definition Client_Dial :: "'d Parser \<Rightarrow> eioSocket \<Rightarrow> (bytes \<rightharpoonup> namespace) \<Rightarrow> bool \<Rightarrow> 'd client" where
  "Client_Dial P e m onErr = \<lparr>client_socket = newSocket e P, client_nsps = m, client_onError = onErr\<rparr>"

definition Client_Namespace :: "bytes \<Rightarrow> 'd client \<Rightarrow> namespace \<times> 'd client" where
  "Client_Namespace nsp c = (case creatensp nsp (client_nsps c) of (n, m) \<Rightarrow> (n, c\<lparr>client_nsps := m\<rparr>))"

definition Client_OnError :: "'d client \<Rightarrow> 'd client" where
  "Client_OnError c = c\<lparr>client_onError := True\<rparr>"

definition Client_onMessage ::
  "'d Parser \<Rightarrow> (gofunc \<Rightarrow> rvalue list \<Rightarrow> gval list) \<Rightarrow> byte \<Rightarrow> bytes \<Rightarrow> 'd client \<Rightarrow>
     ('d client \<times> effect list) option outcome" where
  "Client_onMessage P run mt dat c =
     (case receive P (Client_process P run (client_nsps c)) (client_onError c) mt dat (client_socket c) of
        Panic \<Rightarrow> Panic
      | Ret None \<Rightarrow> Ret None
      | Ret (Some (s, effs)) \<Rightarrow> Ret (Some (c\<lparr>client_socket := s\<rparr>, effs)))"

definition Client_onClose :: "'d client \<Rightarrow> 'd client \<times> effect list" where
  "Client_onClose c =
     (case detachall (client_nsps c) (socket_Close (client_socket c)) of
        (s, effs) \<Rightarrow> (c\<lparr>client_socket := s\<rparr>, effs))"

definition Client_Emit ::
  "'d Parser \<Rightarrow> bytes \<Rightarrow> bytes \<Rightarrow> gval list \<Rightarrow> 'd client \<Rightarrow> (goerr option \<times> 'd client) outcome" where
  "Client_Emit P nsp event args c =
     (case emit P nsp event args (client_socket c) of
        Panic \<Rightarrow> Panic
      | Ret (r, s) \<Rightarrow> Ret (r, c\<lparr>client_socket := s\<rparr>))"

end
