(* ===== verification/Packet_Msgp.thy ===== *)
theory Packet_Msgp
  imports Sio_Protocol
begin

text \<open>
  The msgpack methods of \<open>packet.go\<close>. The msgpack library is a parameter, a record of the functions
  that the source calls on byte slices: a reading function gives an error or a value and the
  remaining bytes, an appending function the bytes it appends. \<open>ReadBasic\<close> stands for the
  functions that the type switch of \<open>msgpUnmashalArg\<close> selects by the argument's type. The
  streaming methods work on the library's \<open>Reader\<close> and \<open>Writer\<close>, parameters as well; they agree
  with the ones on byte slices as far as those agree.
\<close>

section \<open>The msgpack library\<close>

datatype mtype = ArrayType | StrType | OtherType

type_synonym 'a read = "bytes \<Rightarrow> goerr + 'a \<times> bytes"

record msgp =
  ReadMapHeaderBytes :: "32 word read"
  ReadMapKeyZC :: "bytes read"
  ReadByteBytes :: "byte read"
  ReadStringBytes :: "bytes read"
  ReadRaw :: "bytes read"
  IsNil :: "bytes \<Rightarrow> bool"
  ReadNilBytes :: "unit read"
  ReadUint64Bytes :: "uint64 read"
  SkipBytes :: "unit read"
  ReadArrayHeaderBytes :: "32 word read"
  NextType :: "bytes \<Rightarrow> mtype"
  ReadBasic :: "rtype \<Rightarrow> gval read"
  AppendByte :: "byte \<Rightarrow> bytes"
  AppendString :: "bytes \<Rightarrow> bytes"
  AppendIntf :: "gval \<Rightarrow> goerr + bytes"
  AppendNil :: bytes
  AppendUint64 :: "uint64 \<Rightarrow> bytes"
  AppendArrayHeader :: "32 word \<Rightarrow> bytes"

section \<open>Packets in msgpack\<close>

abbreviation (input) key_type :: bytes where "key_type \<equiv> [0x74, 0x79, 0x70, 0x65]"
abbreviation (input) key_nsp :: bytes where "key_nsp \<equiv> [0x6E, 0x73, 0x70]"
abbreviation (input) key_data :: bytes where "key_data \<equiv> [0x64, 0x61, 0x74, 0x61]"
abbreviation (input) key_id :: bytes where "key_id \<equiv> [0x69, 0x64]"

definition MarshalMsg :: "msgp \<Rightarrow> sioPacket \<Rightarrow> goerr + bytes" where
  "MarshalMsg M z =
     (case AppendIntf M (Data z) of
        Inl e \<Rightarrow> Inl e
      | Inr x \<Rightarrow>
          Inr ([0x84, 0xA4, 0x74, 0x79, 0x70, 0x65] @ AppendByte M (Type z)
               @ [0xA3, 0x6E, 0x73, 0x70] @ AppendString M (Namespace z)
               @ [0xA4, 0x64, 0x61, 0x74, 0x61] @ x
               @ [0xA2, 0x69, 0x64]
               @ (case ID z of None \<Rightarrow> AppendNil M | Some i \<Rightarrow> AppendUint64 M i)))"

text \<open>One turn of the loop over the fields, and the loop.\<close>

definition unmarshal_field :: "msgp \<Rightarrow> bytes \<Rightarrow> sioPacket \<Rightarrow> sioPacket read" where
  "unmarshal_field M field z bts =
     (if field = key_type then map_sum id (apfst (\<lambda>b. z\<lparr>Type := b\<rparr>)) (ReadByteBytes M bts)
      else if field = key_nsp then map_sum id (apfst (\<lambda>s. z\<lparr>Namespace := s\<rparr>)) (ReadStringBytes M bts)
      else if field = key_data then map_sum id (apfst (\<lambda>d. z\<lparr>Data := GRaw d\<rparr>)) (ReadRaw M bts)
      else if field = key_id then
        (if IsNil M bts then map_sum id (apfst (\<lambda>_. z\<lparr>ID := None\<rparr>)) (ReadNilBytes M bts)
         else map_sum id (apfst (\<lambda>i. z\<lparr>ID := Some i\<rparr>)) (ReadUint64Bytes M bts))
      else map_sum id (apfst (\<lambda>_. z)) (SkipBytes M bts))"

fun unmarshal_fields :: "msgp \<Rightarrow> nat \<Rightarrow> sioPacket \<Rightarrow> sioPacket read" where
  "unmarshal_fields M 0 z bts = Inr (z, bts)"
| "unmarshal_fields M (Suc n) z bts =
     (case ReadMapKeyZC M bts of
        Inl e \<Rightarrow> Inl e
      | Inr (field, bts1) \<Rightarrow>
          (case unmarshal_field M field z bts1 of
             Inl e \<Rightarrow> Inl e
           | Inr (z', bts2) \<Rightarrow> unmarshal_fields M n z' bts2))"

definition UnmarshalMsg :: "msgp \<Rightarrow> sioPacket \<Rightarrow> sioPacket read" where
  "UnmarshalMsg M z bts =
     (case ReadMapHeaderBytes M bts of
        Inl e \<Rightarrow> Inl e
      | Inr (n, bts1) \<Rightarrow> unmarshal_fields M (unat n) z bts1)"

section \<open>Streams\<close>

record 'r msgp_reader =
  ReadMapHeader :: "'r \<Rightarrow> (goerr + 32 word) \<times> 'r"
  ReadMapKeyPtr :: "'r \<Rightarrow> (goerr + bytes) \<times> 'r"
  dc_ReadByte :: "'r \<Rightarrow> (goerr + byte) \<times> 'r"
  dc_ReadString :: "'r \<Rightarrow> (goerr + bytes) \<times> 'r"
  dc_ReadRaw :: "'r \<Rightarrow> (goerr + bytes) \<times> 'r"
  dc_IsNil :: "'r \<Rightarrow> bool \<times> 'r"
  dc_ReadNil :: "'r \<Rightarrow> (goerr + unit) \<times> 'r"
  dc_ReadUint64 :: "'r \<Rightarrow> (goerr + uint64) \<times> 'r"
  dc_Skip :: "'r \<Rightarrow> (goerr + unit) \<times> 'r"

record 'w msgp_writer =
  en_Append :: "bytes \<Rightarrow> 'w \<Rightarrow> goerr option \<times> 'w"
  en_WriteByte :: "byte \<Rightarrow> 'w \<Rightarrow> goerr option \<times> 'w"
  en_WriteString :: "bytes \<Rightarrow> 'w \<Rightarrow> goerr option \<times> 'w"
  en_WriteIntf :: "gval \<Rightarrow> 'w \<Rightarrow> goerr option \<times> 'w"
  en_WriteNil :: "'w \<Rightarrow> goerr option \<times> 'w"
  en_WriteUint64 :: "uint64 \<Rightarrow> 'w \<Rightarrow> goerr option \<times> 'w"

abbreviation (input) on_value :: "('a \<Rightarrow> 'b) \<Rightarrow> (goerr + 'a) \<times> 'r \<Rightarrow> (goerr + 'b) \<times> 'r" where
  "on_value f \<equiv> apfst (map_sum id f)"

definition decode_field ::
  "'r msgp_reader \<Rightarrow> bytes \<Rightarrow> sioPacket \<Rightarrow> 'r \<Rightarrow> (goerr + sioPacket) \<times> 'r" where
  "decode_field R field z dc =
     (if field = key_type then on_value (\<lambda>b. z\<lparr>Type := b\<rparr>) (dc_ReadByte R dc)
      else if field = key_nsp then on_value (\<lambda>s. z\<lparr>Namespace := s\<rparr>) (dc_ReadString R dc)
      else if field = key_data then on_value (\<lambda>d. z\<lparr>Data := GRaw d\<rparr>) (dc_ReadRaw R dc)
      else if field = key_id then
        (case dc_IsNil R dc of
           (True, dc1) \<Rightarrow> on_value (\<lambda>_. z\<lparr>ID := None\<rparr>) (dc_ReadNil R dc1)
         | (False, dc1) \<Rightarrow> on_value (\<lambda>i. z\<lparr>ID := Some i\<rparr>) (dc_ReadUint64 R dc1))
      else on_value (\<lambda>_. z) (dc_Skip R dc))"

fun decode_fields :: "'r msgp_reader \<Rightarrow> nat \<Rightarrow> sioPacket \<Rightarrow> 'r \<Rightarrow> (goerr + sioPacket) \<times> 'r" where
  "decode_fields R 0 z dc = (Inr z, dc)"
| "decode_fields R (Suc n) z dc =
     (case ReadMapKeyPtr R dc of
        (Inl e, dc1) \<Rightarrow> (Inl e, dc1)
      | (Inr field, dc1) \<Rightarrow>
          (case decode_field R field z dc1 of
             (Inl e, dc2) \<Rightarrow> (Inl e, dc2)
           | (Inr z', dc2) \<Rightarrow> decode_fields R n z' dc2))"

definition DecodeMsg :: "'r msgp_reader \<Rightarrow> sioPacket \<Rightarrow> 'r \<Rightarrow> (goerr + sioPacket) \<times> 'r" where
  "DecodeMsg R z dc =
     (case ReadMapHeader R dc of
        (Inl e, dc1) \<Rightarrow> (Inl e, dc1)
      | (Inr n, dc1) \<Rightarrow> decode_fields R (unat n) z dc1)"

text \<open>Writes one after the other, up to the first error.\<close>

fun write_seq :: "('w \<Rightarrow> goerr option \<times> 'w) list \<Rightarrow> 'w \<Rightarrow> goerr option \<times> 'w" where
  "write_seq [] en = (None, en)"
| "write_seq (f # fs) en =
     (case f en of (Some e, en1) \<Rightarrow> (Some e, en1) | (None, en1) \<Rightarrow> write_seq fs en1)"

definition EncodeMsg :: "'w msgp_writer \<Rightarrow> sioPacket \<Rightarrow> 'w \<Rightarrow> goerr option \<times> 'w" where
  "EncodeMsg W z =
     write_seq
       [en_Append W [0x84, 0xA4, 0x74, 0x79, 0x70, 0x65], en_WriteByte W (Type z),
        en_Append W [0xA3, 0x6E, 0x73, 0x70], en_WriteString W (Namespace z),
        en_Append W [0xA4, 0x64, 0x61, 0x74, 0x61], en_WriteIntf W (Data z),
        en_Append W [0xA2, 0x69, 0x64],
        (case ID z of None \<Rightarrow> en_WriteNil W | Some i \<Rightarrow> en_WriteUint64 W i)]"

section \<open>Streams agree with byte slices\<close>

text \<open>
  A reader reads what a function on byte slices reads from the bytes that remain in it; a writer
  writes the bytes that a function appends.
\<close>

definition reads_as :: "('r \<Rightarrow> bytes) \<Rightarrow> ('r \<Rightarrow> (goerr + 'a) \<times> 'r) \<Rightarrow> 'a read \<Rightarrow> bool" where
  "reads_as rest f g \<longleftrightarrow>
     (\<forall>r. case f r of
        (Inl _, _) \<Rightarrow> (\<exists>e. g (rest r) = Inl e)
      | (Inr v, r') \<Rightarrow> g (rest r) = Inr (v, rest r'))"

definition writes_as :: "('w \<Rightarrow> bytes) \<Rightarrow> ('w \<Rightarrow> goerr option \<times> 'w) \<Rightarrow> goerr + bytes \<Rightarrow> bool" where
  "writes_as out f x \<longleftrightarrow> (\<forall>w w'. f w = (None, w') \<longrightarrow> (\<exists>y. x = Inr y \<and> out w' = out w @ y))"

definition stream_reader :: "msgp \<Rightarrow> 'r msgp_reader \<Rightarrow> ('r \<Rightarrow> bytes) \<Rightarrow> bool" where
  "stream_reader M R rest \<longleftrightarrow>
     reads_as rest (ReadMapHeader R) (ReadMapHeaderBytes M) \<and>
     reads_as rest (ReadMapKeyPtr R) (ReadMapKeyZC M) \<and>
     reads_as rest (dc_ReadByte R) (ReadByteBytes M) \<and>
     reads_as rest (dc_ReadString R) (ReadStringBytes M) \<and>
     reads_as rest (dc_ReadRaw R) (ReadRaw M) \<and>
     (\<forall>r. fst (dc_IsNil R r) = IsNil M (rest r) \<and> rest (snd (dc_IsNil R r)) = rest r) \<and>
     reads_as rest (dc_ReadNil R) (ReadNilBytes M) \<and>
     reads_as rest (dc_ReadUint64 R) (ReadUint64Bytes M) \<and>
     reads_as rest (dc_Skip R) (SkipBytes M)"

definition stream_writer :: "msgp \<Rightarrow> 'w msgp_writer \<Rightarrow> ('w \<Rightarrow> bytes) \<Rightarrow> bool" where
  "stream_writer M W out \<longleftrightarrow>
     (\<forall>x. writes_as out (en_Append W x) (Inr x)) \<and>
     (\<forall>b. writes_as out (en_WriteByte W b) (Inr (AppendByte M b))) \<and>
     (\<forall>s. writes_as out (en_WriteString W s) (Inr (AppendString M s))) \<and>
     (\<forall>v. writes_as out (en_WriteIntf W v) (AppendIntf M v)) \<and>
     writes_as out (en_WriteNil W) (Inr (AppendNil M)) \<and>
     (\<forall>i. writes_as out (en_WriteUint64 W i) (Inr (AppendUint64 M i)))"

lemma reads_asI:
  assumes "\<And>r e r'. f r = (Inl e, r') \<Longrightarrow> \<exists>e'. g (rest r) = Inl e'"
    and "\<And>r v r'. f r = (Inr v, r') \<Longrightarrow> g (rest r) = Inr (v, rest r')"
  shows "reads_as rest f g"
  unfolding reads_as_def using assms by (auto split: prod.splits sum.splits)

lemma reads_asD:
  assumes "reads_as rest f g"
  shows "f r = (Inl e, r') \<Longrightarrow> \<exists>e'. g (rest r) = Inl e'"
    and "f r = (Inr v, r') \<Longrightarrow> g (rest r) = Inr (v, rest r')"
  using assms [unfolded reads_as_def, THEN spec, of r] by simp_all

lemma reads_as_map:
  assumes "reads_as rest f g"
  shows "reads_as rest (\<lambda>r. on_value h (f r)) (\<lambda>b. map_sum id (apfst h) (g b))"
proof (rule reads_asI)
  fix r e r' assume "on_value h (f r) = (Inl e, r')"
  then have "f r = (Inl e, r')" by (cases "f r"; cases "fst (f r)") auto
  from reads_asD(1) [OF assms this] show "\<exists>e'. map_sum id (apfst h) (g (rest r)) = Inl e'" by auto
next
  fix r v r' assume "on_value h (f r) = (Inr v, r')"
  then obtain u where "f r = (Inr u, r')" "v = h u" by (cases "f r"; cases "fst (f r)") auto
  with reads_asD(2) [OF assms] show "map_sum id (apfst h) (g (rest r)) = Inr (v, rest r')" by simp
qed

lemma reads_as_bind:
  assumes "reads_as rest f g" and "\<And>v. reads_as rest (f' v) (g' v)"
  shows "reads_as rest
    (\<lambda>r. case f r of (Inl e, r1) \<Rightarrow> (Inl e, r1) | (Inr v, r1) \<Rightarrow> f' v r1)
    (\<lambda>b. case g b of Inl e \<Rightarrow> Inl e | Inr (v, b1) \<Rightarrow> g' v b1)"
proof (rule reads_asI)
  fix r e r' assume "(case f r of (Inl e, r1) \<Rightarrow> (Inl e, r1) | (Inr v, r1) \<Rightarrow> f' v r1) = (Inl e, r')"
  then show "\<exists>e'. (case g (rest r) of Inl e \<Rightarrow> Inl e | Inr (v, b1) \<Rightarrow> g' v b1) = Inl e'"
    using reads_asD [OF assms(1), of r] reads_asD(1) [OF assms(2)]
    by (cases "f r"; cases "fst (f r)") fastforce+
next
  fix r v r' assume "(case f r of (Inl e, r1) \<Rightarrow> (Inl e, r1) | (Inr v, r1) \<Rightarrow> f' v r1) = (Inr v, r')"
  then show "(case g (rest r) of Inl e \<Rightarrow> Inl e | Inr (v, b1) \<Rightarrow> g' v b1) = Inr (v, rest r')"
    using reads_asD [OF assms(1), of r] reads_asD(2) [OF assms(2)]
    by (cases "f r"; cases "fst (f r)") fastforce+
qed

lemma reads_as_test:
  assumes "\<And>r. fst (n r) = t (rest r) \<and> rest (snd (n r)) = rest r"
    and "reads_as rest f g" and "reads_as rest f' g'"
  shows "reads_as rest (\<lambda>r. case n r of (True, r1) \<Rightarrow> f r1 | (False, r1) \<Rightarrow> f' r1)
    (\<lambda>b. if t b then g b else g' b)"
proof (rule reads_asI)
  fix r e r' assume "(case n r of (True, r1) \<Rightarrow> f r1 | (False, r1) \<Rightarrow> f' r1) = (Inl e, r')"
  then show "\<exists>e'. (if t (rest r) then g (rest r) else g' (rest r)) = Inl e'"
    using assms(1) [of r] reads_asD(1) [OF assms(2), of "snd (n r)"] reads_asD(1) [OF assms(3), of "snd (n r)"]
    by (cases "n r"; cases "fst (n r)") auto
next
  fix r v r' assume "(case n r of (True, r1) \<Rightarrow> f r1 | (False, r1) \<Rightarrow> f' r1) = (Inr v, r')"
  then show "(if t (rest r) then g (rest r) else g' (rest r)) = Inr (v, rest r')"
    using assms(1) [of r] reads_asD(2) [OF assms(2), of "snd (n r)"] reads_asD(2) [OF assms(3), of "snd (n r)"]
    by (cases "n r"; cases "fst (n r)") auto
qed

lemma reads_as_if:
  "reads_as rest f g \<Longrightarrow> reads_as rest f' g' \<Longrightarrow>
   reads_as rest (\<lambda>r. if c then f r else f' r) (\<lambda>b. if c then g b else g' b)"
  by (cases c) simp_all

lemma decode_field_reads:
  assumes "stream_reader M R rest"
  shows "reads_as rest (decode_field R k z) (unmarshal_field M k z)"
  using assms unfolding decode_field_def [abs_def] unmarshal_field_def [abs_def] stream_reader_def
  by (intro reads_as_if reads_as_map reads_as_test) simp_all

lemma decode_fields_reads:
  assumes "stream_reader M R rest"
  shows "reads_as rest (decode_fields R n z) (unmarshal_fields M n z)"
proof (induction n arbitrary: z)
  case 0
  then show ?case by (simp add: reads_as_def)
next
  case (Suc n)
  have "reads_as rest (ReadMapKeyPtr R) (ReadMapKeyZC M)" using assms by (simp add: stream_reader_def)
  from reads_as_bind [OF this reads_as_bind [OF decode_field_reads [OF assms] Suc.IH]]
  show ?case by simp
qed

lemma DecodeMsg_reads:
  assumes "stream_reader M R rest"
  shows "reads_as rest (DecodeMsg R z) (UnmarshalMsg M z)"
proof -
  have "reads_as rest (ReadMapHeader R) (ReadMapHeaderBytes M)" using assms by (simp add: stream_reader_def)
  from reads_as_bind [OF this decode_fields_reads [OF assms]]
  show ?thesis by (simp add: DecodeMsg_def [abs_def] UnmarshalMsg_def [abs_def])
qed

lemma write_seq_writes:
  assumes "list_all2 (\<lambda>f x. writes_as out f x) fs xs" and "write_seq fs w = (None, w')"
  shows "\<exists>ys. xs = map Inr ys \<and> out w' = out w @ concat ys"
  using assms
proof (induction fs xs arbitrary: w rule: list_all2_induct)
  case Nil
  then show ?case by simp
next
  case (Cons f fs x xs)
  from Cons.prems obtain w1 where w1: "f w = (None, w1)" "write_seq fs w1 = (None, w')"
    by (auto split: prod.splits option.splits)
  with Cons.hyps(1) obtain y where y: "x = Inr y" "out w1 = out w @ y" unfolding writes_as_def by blast
  from Cons.IH [OF w1(2)] obtain ys where "xs = map Inr ys" "out w' = out w1 @ concat ys" by blast
  with y show ?case by (intro exI [of _ "y # ys"]) simp
qed

lemma EncodeMsg_writes:
  assumes "stream_writer M W out" and "EncodeMsg W z w = (None, w')"
  shows "\<exists>o'. MarshalMsg M z = Inr o' \<and> out w' = out w @ o'"
proof -
  let ?i = "case ID z of None \<Rightarrow> AppendNil M | Some i \<Rightarrow> AppendUint64 M i"
  let ?xs = "[Inr [0x84, 0xA4, 0x74, 0x79, 0x70, 0x65], Inr (AppendByte M (Type z)),
    Inr [0xA3, 0x6E, 0x73, 0x70], Inr (AppendString M (Namespace z)), Inr [0xA4, 0x64, 0x61, 0x74, 0x61],
    AppendIntf M (Data z), Inr [0xA2, 0x69, 0x64], Inr ?i]"
  have "list_all2 (\<lambda>f x. writes_as out f x)
     [en_Append W [0x84, 0xA4, 0x74, 0x79, 0x70, 0x65], en_WriteByte W (Type z),
        en_Append W [0xA3, 0x6E, 0x73, 0x70], en_WriteString W (Namespace z),
        en_Append W [0xA4, 0x64, 0x61, 0x74, 0x61], en_WriteIntf W (Data z),
        en_Append W [0xA2, 0x69, 0x64],
        (case ID z of None \<Rightarrow> en_WriteNil W | Some i \<Rightarrow> en_WriteUint64 W i)] ?xs"
    using assms(1) by (auto simp: stream_writer_def split: option.split)
  from write_seq_writes [OF this assms(2) [unfolded EncodeMsg_def]]
  show ?thesis
    by (elim exE conjE) (auto simp: MarshalMsg_def Cons_eq_map_conv)
qed

end
