(* ===== verification/Parser_Msgp.thy ===== *)
theory Parser_Msgp
  imports Sio_Socket Packet_Msgp
begin

text \<open>
  \<open>parser_msgp.go\<close>: the parser that packs a whole packet into one binary message, over the msgpack
  library of \<open>Packet_Msgp\<close>. A pointer has the value it points to. The last section says for which
  parameter types decoding returns, and shows the panic of the others.
\<close>

section \<open>Packets in JSON\<close>

text \<open>
  The struct tags of \<open>Packet\<close>: the members in the order of the fields, \<open>data\<close> and \<open>id\<close> only when
  they are not nil. Decoding matches keys without regard to case (where Go folds the long s too),
  and skips unknown members; \<open>null\<close> leaves a type or a namespace as it is.
\<close>

definition packet_fields :: "sioPacket \<Rightarrow> (bytes \<times> gval) list" where
  "packet_fields p =
     [(key_type, GNum (dec (unat (Type p)))), (key_nsp, GStr (Namespace p))]
     @ (if Data p = GNil then [] else [(key_data, Data p)])
     @ (case ID p of None \<Rightarrow> [] | Some i \<Rightarrow> [(key_id, GNum (dec (unat i)))])"

definition set_field :: "bytes \<times> gval \<Rightarrow> sioPacket \<Rightarrow> sioPacket option" where
  "set_field kv z =
     (let k = fold_key (fst kv); v = snd kv in
      if k = key_type then
        (case v of
           GNil \<Rightarrow> Some z
         | GNum l \<Rightarrow> map_option (\<lambda>n. z\<lparr>Type := of_nat n\<rparr>) (parse_uint 8 l)
         | _ \<Rightarrow> None)
      else if k = key_nsp then
        (case v of GNil \<Rightarrow> Some z | GStr s \<Rightarrow> Some (z\<lparr>Namespace := s\<rparr>) | _ \<Rightarrow> None)
      else if k = key_data then Some (z\<lparr>Data := v\<rparr>)
      else if k = key_id then
        (case v of
           GNil \<Rightarrow> Some (z\<lparr>ID := None\<rparr>)
         | GNum l \<Rightarrow> map_option (\<lambda>n. z\<lparr>ID := Some (of_nat n)\<rparr>) (parse_uint 64 l)
         | _ \<Rightarrow> None)
      else Some z)"

fun set_fields :: "(bytes \<times> gval) list \<Rightarrow> sioPacket \<Rightarrow> sioPacket option" where
  "set_fields [] z = Some z"
| "set_fields (kv # kvs) z = (case set_field kv z of None \<Rightarrow> None | Some z' \<Rightarrow> set_fields kvs z')"

definition packet_of_json :: "bytes \<Rightarrow> sioPacket \<Rightarrow> goerr + sioPacket" where
  "packet_of_json s z =
     (case json_fields s of
        Inl e \<Rightarrow> Inl e
      | Inr kvs \<Rightarrow> (case set_fields kvs z of None \<Rightarrow> Inl JsonError | Some z' \<Rightarrow> Inr z'))"

section \<open>Encoder\<close>

definition msgpack_Encode :: "msgp \<Rightarrow> sioPacket \<Rightarrow> goerr + bytes \<times> bytes list" where
  "msgpack_Encode M p =
     (if Type p = PacketTypeConnect \<or> Type p = PacketTypeDisconnect \<or> Type p = PacketTypeError
      then (case json_marshal (GMap (packet_fields p)) of
              None \<Rightarrow> Inl JsonError
            | Some b \<Rightarrow> Inr (b, []))
      else (case MarshalMsg M p of
              Inl e \<Rightarrow> Inl e
            | Inr b \<Rightarrow> Inr ([], [b])))"

section \<open>Decoder\<close>

record msgpackDecoder =
  queued :: "sioPacket list"
  queued_max :: nat

definition newMsgpackDecoder :: "nat \<Rightarrow> msgpackDecoder" where
  "newMsgpackDecoder n = \<lparr>queued = [], queued_max = n\<rparr>"

text \<open>\<open>None\<close> when the channel is full, so that sending blocks.\<close>

definition msgpack_Add ::
  "msgp \<Rightarrow> byte \<Rightarrow> bytes \<Rightarrow> msgpackDecoder \<Rightarrow> (goerr option \<times> msgpackDecoder) option" where
  "msgpack_Add M mt dat d =
     (let p0 = mk_packet 0 [] GNil None;
          r = (if mt = MessageTypeString then packet_of_json dat p0
               else if mt = MessageTypeBinary then map_sum id fst (UnmarshalMsg M p0 dat)
               else Inr p0)
      in case r of
           Inl e \<Rightarrow> Some (Some e, d)
         | Inr p \<Rightarrow>
             let p' = (if Namespace p = [] then p\<lparr>Namespace := [0x2F]\<rparr> else p) in
             if length (queued d) < queued_max d
             then Some (None, d\<lparr>queued := queued d @ [p']\<rparr>)
             else None)"

definition msgpack_Decoded :: "msgpackDecoder \<Rightarrow> sioPacket option \<times> msgpackDecoder" where
  "msgpack_Decoded d =
     (case queued d of [] \<Rightarrow> (None, d) | p # ps \<Rightarrow> (Some p, d\<lparr>queued := ps\<rparr>))"

definition msgpack_ParseData :: "msgp \<Rightarrow> sioPacket \<Rightarrow> goerr + bytes \<times> bytes \<times> bytes list" where
  "msgpack_ParseData M p =
     (if Type p = PacketTypeConnect \<or> Type p = PacketTypeDisconnect \<or> Type p = PacketTypeError
      then Inr ([], [], [])
      else case Data p of
        GRaw b \<Rightarrow>
          if NextType M b \<noteq> ArrayType then Inl (Errorf ''data should be a list of arguments'')
          else (case ReadArrayHeaderBytes M b of
            Inl e \<Rightarrow> Inl e
          | Inr (sz, b1) \<Rightarrow>
              if Type p = PacketTypeEvent \<or> Type p = PacketTypeBinaryEvent then
                if NextType M b1 \<noteq> StrType then Inl (Errorf ''event name should have string type'')
                else (case ReadStringBytes M b1 of
                  Inl e \<Rightarrow> Inl e
                | Inr (event, b2) \<Rightarrow> Inr (event, AppendArrayHeader M (sz - 1) @ b2, []))
              else Inr ([], b, []))
      | _ \<Rightarrow> Inl (Errorf ''data should be raw bytes''))"

section \<open>Arguments\<close>

text \<open>
  The loops over a slice or an array, and over a map, where the last value of a key stays. Setting a
  value under a key of type \<open>string\<close> panics for a map with another key type. Memory for the declared
  length of a slice or a map is taken to be there.
\<close>

type_synonym 'a pread = "bytes \<Rightarrow> (goerr + 'a \<times> bytes) outcome"

fun read_elems :: "'a pread \<Rightarrow> nat \<Rightarrow> 'a list pread" where
  "read_elems rd 0 d = Ret (Inr ([], d))"
| "read_elems rd (Suc n) d =
     (case rd d of
        Panic \<Rightarrow> Panic
      | Ret (Inl e) \<Rightarrow> Ret (Inl e)
      | Ret (Inr (v, d1)) \<Rightarrow> map_outcome (map_sum id (apfst ((#) v))) (read_elems rd n d1))"

fun msgpReadMap ::
  "msgp \<Rightarrow> rtype \<Rightarrow> gval pread \<Rightarrow> nat \<Rightarrow> (bytes \<times> gval) list \<Rightarrow> (bytes \<times> gval) list pread" where
  "msgpReadMap M kt rd 0 m d = Ret (Inr (m, d))"
| "msgpReadMap M kt rd (Suc n) m d =
     (if length d < 1 then Ret (Inl ErrShortBytes)
      else case ReadMapKeyZC M d of
        Inl e \<Rightarrow> Ret (Inl e)
      | Inr (key, d1) \<Rightarrow>
          (case rd d1 of
             Panic \<Rightarrow> Panic
           | Ret (Inl e) \<Rightarrow> Ret (Inl e)
           | Ret (Inr (v, d2)) \<Rightarrow>
               if kt = RString then msgpReadMap M kt rd n (AList.update key v m) d2 else Panic))"

text \<open>The types with a case of their own in the type switch.\<close>

fun basic_type :: "rtype \<Rightarrow> bool" where
  "basic_type (RMap k v) = (k = RString \<and> v = RInterface)"
| "basic_type (RSlice u) = (u = RUint8)"
| "basic_type (RPtr _) = False"
| "basic_type (RArray _ _) = False"
| "basic_type (RCustom _ m _ _) = m"
| "basic_type t = (t \<notin> {RSocket, RBytes, RStruct, RChan, RFunc, RUnsafePointer})"

text \<open>The kinds that cannot be values of a map.\<close>

definition bad_elem_kind :: "rtype \<Rightarrow> bool" where
  "bad_elem_kind t \<longleftrightarrow>
     kind_of t \<in> {RChan, RInterface, RSocket, RFunc, RUnsafePointer, RStruct, RBytes, RTime}"

text \<open>
  \<open>named\<close> says that the type is the underlying type of one that the user declared: then no case of
  the type switch is for it, and its kind decides.
\<close>

fun msgpUnmashalArg :: "msgp \<Rightarrow> (rtype \<Rightarrow> gval) \<Rightarrow> bool \<Rightarrow> rtype \<Rightarrow> gval pread" where
  "msgpUnmashalArg M zero named (RCustom i m b u) d =
     (if m then Ret (ReadBasic M (RCustom i m b u) d) else msgpUnmashalArg M zero True u d)"
| "msgpUnmashalArg M zero named (RPtr u) d = msgpUnmashalArg M zero False u d"
| "msgpUnmashalArg M zero named (RSlice u) d =
     (if \<not> named \<and> u = RUint8 then Ret (ReadBasic M (RSlice u) d)
      else case ReadArrayHeaderBytes M d of
        Inl e \<Rightarrow> Ret (Inl e)
      | Inr (sz, d1) \<Rightarrow>
          map_outcome (map_sum id (apfst GList)) (read_elems (msgpUnmashalArg M zero False u) (unat sz) d1))"
| "msgpUnmashalArg M zero named (RArray n u) d =
     (case ReadArrayHeaderBytes M d of
        Inl e \<Rightarrow> Ret (Inl e)
      | Inr (sz, d1) \<Rightarrow>
          if n < unat sz then Ret (Inl (Errorf ''array length''))
          else map_outcome (map_sum id (apfst (\<lambda>vs. GList (vs @ replicate (n - unat sz) (zero u)))))
                 (read_elems (msgpUnmashalArg M zero False u) (unat sz) d1))"
| "msgpUnmashalArg M zero named (RMap k v) d =
     (if \<not> named \<and> k = RString \<and> v = RInterface then Ret (ReadBasic M (RMap k v) d)
      else if kind_of k \<noteq> RString \<or> bad_elem_kind v then Ret (Inl (Errorf ''unsupported''))
      else (case ReadMapHeaderBytes M d of
         Inl e \<Rightarrow> Ret (Inl e)
       | Inr (sz, d1) \<Rightarrow>
           map_outcome (map_sum id (apfst GMap))
             (msgpReadMap M k (msgpUnmashalArg M zero False v) (unat sz) [] d1)))"
| "msgpUnmashalArg M zero named RDuration d =
     (if named then Ret (Inl (Errorf ''unsupported'')) else Ret (ReadBasic M RInt64 d))"
| "msgpUnmashalArg M zero named t d =
     (if \<not> named \<and> basic_type t then Ret (ReadBasic M t d) else Ret (Inl (Errorf ''unsupported'')))"

text \<open>The loop of \<open>UnmarshalArgs\<close>; the number of values in the message is not looked at.\<close>

fun msgpack_args :: "msgp \<Rightarrow> (rtype \<Rightarrow> gval) \<Rightarrow> rtype list \<Rightarrow> bytes \<Rightarrow> (goerr + rvalue list) outcome" where
  "msgpack_args M zero [] d = Ret (Inr [])"
| "msgpack_args M zero (t # ts) d =
     (if isTypeSocket t then map_outcome (map_sum id ((#) RVInvalid)) (msgpack_args M zero ts d)
      else (case msgpUnmashalArg M zero False (elem_type t) d of
              Panic \<Rightarrow> Panic
            | Ret (Inl e) \<Rightarrow> Ret (Inl e)
            | Ret (Inr (v, d1)) \<Rightarrow> map_outcome (map_sum id ((#) (RV v))) (msgpack_args M zero ts d1)))"

definition msgpack_UnmarshalArgs :: "msgp \<Rightarrow> (rtype \<Rightarrow> gval) \<Rightarrow> args_unmarshaler" where
  "msgpack_UnmarshalArgs M zero args dat bin =
     (case ReadArrayHeaderBytes M dat of
        Inl e \<Rightarrow> Ret (Inl e)
      | Inr (_, d) \<Rightarrow> msgpack_args M zero args d)"

definition MsgpackParser :: "msgp \<Rightarrow> (rtype \<Rightarrow> gval) \<Rightarrow> msgpackDecoder Parser" where
  "MsgpackParser M zero =
     \<lparr>p_encode = (\<lambda>p. (p, msgpack_Encode M p)), p_decoder = newMsgpackDecoder 8,
      p_add = (\<lambda>mt dat d. Ret (msgpack_Add M mt dat d)), p_decoded = msgpack_Decoded,
      p_parse = msgpack_ParseData M, p_args = msgpack_UnmarshalArgs M zero\<rparr>"

section \<open>Panics\<close>

text \<open>The types that can be read without a panic: every map with string keys has keys of type \<open>string\<close>.\<close>

fun settable :: "rtype \<Rightarrow> bool" where
  "settable (RCustom i m b u) = (m \<or> settable u)"
| "settable (RPtr u) = settable u"
| "settable (RSlice u) = settable u"
| "settable (RArray n u) = settable u"
| "settable (RMap k v) = ((kind_of k = RString \<longrightarrow> k = RString) \<and> settable v)"
| "settable t = True"

definition settable_param :: "rtype \<Rightarrow> bool" where
  "settable_param t \<longleftrightarrow> isTypeSocket t \<or> settable (elem_type t)"

lemma read_elems_returns: "(\<And>d. rd d \<noteq> Panic) \<Longrightarrow> read_elems rd n d \<noteq> Panic"
proof (induction n arbitrary: d)
  case (Suc n)
  then show ?case by (auto split: outcome.splits sum.splits)
qed simp

lemma msgpReadMap_returns: "(\<And>d. rd d \<noteq> Panic) \<Longrightarrow> msgpReadMap M RString rd n m d \<noteq> Panic"
proof (induction n arbitrary: m d)
  case (Suc n)
  then show ?case by (auto split: outcome.splits sum.splits)
qed simp

lemma msgpUnmashalArg_returns: "settable t \<Longrightarrow> msgpUnmashalArg M zero named t d \<noteq> Panic"
proof (induction t arbitrary: named d)
  case (RSlice u)
  then show ?case by (auto intro!: read_elems_returns split: sum.split)
next
  case (RArray n u)
  then show ?case by (auto intro!: read_elems_returns split: sum.split)
next
  case (RMap k v)
  then show ?case by (auto intro!: msgpReadMap_returns split: sum.split)
qed auto

lemma msgpack_args_returns: "list_all settable_param ts \<Longrightarrow> msgpack_args M zero ts d \<noteq> Panic"
proof (induction ts arbitrary: d)
  case (Cons t ts)
  then show ?case
    using msgpUnmashalArg_returns [of "elem_type t" M zero False d]
    by (auto simp: settable_param_def split: outcome.splits sum.splits)
qed simp

text \<open>
  A handler with a parameter of a map type whose keys have a declared string type panics, in
  \<open>SetMapIndex\<close>, on the first entry that a peer sends for it.
\<close>

lemma named_key_panics:
  assumes "kind_of k = RString" and "k \<noteq> RString" and "\<not> bad_elem_kind v"
    and "ReadMapHeaderBytes M d = Inr (sz, d1)" and "0 < unat sz" and "d1 \<noteq> []"
    and "ReadMapKeyZC M d1 = Inr (key, d2)" and "msgpUnmashalArg M zero False v d2 = Ret (Inr (w, d3))"
  shows "msgpUnmashalArg M zero named (RMap k v) d = Panic"
  using assms by (cases "unat sz") (auto simp: Suc_le_eq)

end
