(* ===== verification/Msgp_Codec.thy ===== *)
theory Msgp_Codec
  imports Packet_Msgp
begin

text \<open>
  What the parser relies on in the msgpack library, and a codec that has it: a part of the
  msgpack format, with headers of fixed width, that shows that the assumptions can hold.
\<close>

section \<open>The laws\<close>

text \<open>
  Reading what was appended gives it back and leaves the rest: for headers and keys in the short
  forms that the source writes itself, and for every value of an appending function. A list is
  its header and its elements.
\<close>

definition msgp_ok :: "msgp \<Rightarrow> bool" where
  "msgp_ok M \<longleftrightarrow>
     (\<forall>r. ReadMapHeaderBytes M (0x84 # r) = Inr (4, r)) \<and>
     (\<forall>k r. length k < 32 \<longrightarrow> ReadMapKeyZC M ((0xA0 + of_nat (length k)) # k @ r) = Inr (k, r)) \<and>
     (\<forall>b r. ReadByteBytes M (AppendByte M b @ r) = Inr (b, r)) \<and>
     (\<forall>s r. length s < 2 ^ 32 \<longrightarrow> ReadStringBytes M (AppendString M s @ r) = Inr (s, r) \<and>
        NextType M (AppendString M s @ r) = StrType \<and> AppendIntf M (GStr s) = Inr (AppendString M s)) \<and>
     (\<forall>v x r. AppendIntf M v = Inr x \<longrightarrow> ReadRaw M (x @ r) = Inr (x, r)) \<and>
     (\<forall>r. IsNil M (AppendNil M @ r) \<and> ReadNilBytes M (AppendNil M @ r) = Inr ((), r)) \<and>
     (\<forall>i r. \<not> IsNil M (AppendUint64 M i @ r) \<and> ReadUint64Bytes M (AppendUint64 M i @ r) = Inr (i, r)) \<and>
     (\<forall>n r. ReadArrayHeaderBytes M (AppendArrayHeader M n @ r) = Inr (n, r) \<and>
        NextType M (AppendArrayHeader M n @ r) = ArrayType) \<and>
     (\<forall>vs x. AppendIntf M (GList vs) = Inr x \<longrightarrow>
        (\<exists>xs. map (AppendIntf M) vs = map Inr xs \<and>
              x = AppendArrayHeader M (of_nat (length vs)) @ concat xs))"

lemma msgp_okD:
  assumes "msgp_ok M"
  shows "ReadMapHeaderBytes M (0x84 # r) = Inr (4, r)"
    and "length k < 32 \<Longrightarrow> ReadMapKeyZC M ((0xA0 + of_nat (length k)) # k @ r) = Inr (k, r)"
    and "ReadByteBytes M (AppendByte M b @ r) = Inr (b, r)"
    and "length s < 2 ^ 32 \<Longrightarrow> ReadStringBytes M (AppendString M s @ r) = Inr (s, r)"
    and "length s < 2 ^ 32 \<Longrightarrow> NextType M (AppendString M s @ r) = StrType"
    and "length s < 2 ^ 32 \<Longrightarrow> AppendIntf M (GStr s) = Inr (AppendString M s)"
    and "AppendIntf M v = Inr x \<Longrightarrow> ReadRaw M (x @ r) = Inr (x, r)"
    and "IsNil M (AppendNil M @ r)" and "ReadNilBytes M (AppendNil M @ r) = Inr ((), r)"
    and "\<not> IsNil M (AppendUint64 M i @ r)" and "ReadUint64Bytes M (AppendUint64 M i @ r) = Inr (i, r)"
    and "ReadArrayHeaderBytes M (AppendArrayHeader M n @ r) = Inr (n, r)"
    and "NextType M (AppendArrayHeader M n @ r) = ArrayType"
    and "AppendIntf M (GList vs) = Inr x \<Longrightarrow>
      \<exists>xs. map (AppendIntf M) vs = map Inr xs \<and> x = AppendArrayHeader M (of_nat (length vs)) @ concat xs"
  using assms unfolding msgp_ok_def by simp_all

section \<open>A codec\<close>

fun be :: "nat \<Rightarrow> nat \<Rightarrow> bytes" where
  "be 0 n = []"
| "be (Suc k) n = be k (n div 256) @ [of_nat (n mod 256)]"

definition unbe :: "bytes \<Rightarrow> nat" where
  "unbe s = foldl (\<lambda>a b. a * 256 + unat b) 0 s"

lemma length_be [simp]: "length (be k n) = k"
  by (induction k arbitrary: n) simp_all

lemma unbe_be: "n < 256 ^ k \<Longrightarrow> unbe (be k n) = n"
proof (induction k arbitrary: n)
  case (Suc k)
  then have "unbe (be k (n div 256)) = n div 256" by (intro Suc.IH) (simp add: less_mult_imp_div_less mult.commute)
  then show ?case by (simp add: unbe_def unat_of_nat)
qed (simp add: unbe_def)

definition read_be :: "nat \<Rightarrow> nat read" where
  "read_be k s = (if length s < k then Inl ErrShortBytes else Inr (unbe (take k s), drop k s))"

lemma read_be_be [simp]: "n < 256 ^ k \<Longrightarrow> read_be k (be k n @ r) = Inr (n, r)"
  by (simp add: read_be_def unbe_be)

definition read_len :: "nat \<Rightarrow> bytes read" where
  "read_len n s = (if length s < n then Inl ErrShortBytes else Inr (take n s, drop n s))"

definition read_counted :: "bytes read" where
  "read_counted s = (case read_be 4 s of Inl e \<Rightarrow> Inl e | Inr (n, r) \<Rightarrow> read_len n r)"

lemma read_counted_be [simp]:
  "length x < 4294967296 \<Longrightarrow> read_counted (be 4 (length x) @ x @ r) = Inr (x, r)"
  by (simp add: read_counted_def read_len_def)

fun mp_str :: "bytes read" where
  "mp_str [] = Inl ErrShortBytes"
| "mp_str (b # r) =
     (if b = 0xDB then read_counted r
      else if 0xA0 \<le> b \<and> b \<le> 0xBF then read_len (unat b - 160) r
      else Inl (Errorf ''string''))"

fun skip_n :: "(bytes \<Rightarrow> bytes option) \<Rightarrow> nat \<Rightarrow> bytes \<Rightarrow> bytes option" where
  "skip_n f 0 s = Some s"
| "skip_n f (Suc n) s = (case f s of None \<Rightarrow> None | Some r \<Rightarrow> skip_n f n r)"

fun mp_skip :: "nat \<Rightarrow> bytes \<Rightarrow> bytes option" where
  "mp_skip 0 s = None"
| "mp_skip (Suc f) [] = None"
| "mp_skip (Suc f) (b # r) =
     (if b = 0xC0 \<or> b = 0xC2 \<or> b = 0xC3 then Some r
      else if b = 0xDB \<or> b = 0xC6 then (case read_counted r of Inl _ \<Rightarrow> None | Inr (_, r') \<Rightarrow> Some r')
      else if b = 0xDD then (case read_be 4 r of Inl _ \<Rightarrow> None | Inr (n, r') \<Rightarrow> skip_n (mp_skip f) n r')
      else if 0x80 \<le> b \<and> b \<le> 0x8F then skip_n (mp_skip f) (2 * (unat b - 128)) r
      else None)"

definition mp_raw :: "bytes read" where
  "mp_raw s =
     (case mp_skip (Suc (length s)) s of
        None \<Rightarrow> Inl (Errorf ''raw'')
      | Some r \<Rightarrow> Inr (take (length s - length r) s, r))"

definition mp_string :: "bytes \<Rightarrow> bytes" where
  "mp_string s = 0xDB # be 4 (length s) @ s"

fun mp_bytes :: "gval \<Rightarrow> bytes option" where
  "mp_bytes GNil = Some [0xC0]"
| "mp_bytes (GBool b) = Some [if b then 0xC3 else 0xC2]"
| "mp_bytes (GStr s) = (if length s < 4294967296 then Some (mp_string s) else None)"
| "mp_bytes (GRaw s) = (if length s < 4294967296 then Some (0xC6 # be 4 (length s) @ s) else None)"
| "mp_bytes (GList vs) =
     (if length vs < 4294967296
      then map_option (\<lambda>xs. 0xDD # be 4 (length vs) @ concat xs) (those (map mp_bytes vs))
      else None)"
| "mp_bytes _ = None"

definition mp_basic :: "rtype \<Rightarrow> gval read" where
  "mp_basic t s =
     (case (t, s) of
        (RString, _) \<Rightarrow> map_sum id (apfst GStr) (mp_str s)
      | (RSlice RUint8, b # r) \<Rightarrow>
          if b = 0xC6 then map_sum id (apfst GRaw) (read_counted r) else Inl (Errorf ''type'')
      | (RBool, b # r) \<Rightarrow>
          if b = 0xC2 then Inr (GBool False, r) else if b = 0xC3 then Inr (GBool True, r)
          else Inl (Errorf ''type'')
      | _ \<Rightarrow> Inl (Errorf ''type''))"

definition mp :: msgp where
  "mp =
     \<lparr>ReadMapHeaderBytes = (\<lambda>s. case s of
         b # r \<Rightarrow> if 0x80 \<le> b \<and> b \<le> 0x8F then Inr (ucast (b - 0x80), r) else Inl (Errorf ''map'')
       | [] \<Rightarrow> Inl ErrShortBytes),
      ReadMapKeyZC = mp_str,
      ReadByteBytes = (\<lambda>s. case s of a # b # r \<Rightarrow> if a = 0xCC then Inr (b, r) else Inl (Errorf ''byte'')
       | _ \<Rightarrow> Inl ErrShortBytes),
      ReadStringBytes = mp_str,
      ReadRaw = mp_raw,
      IsNil = (\<lambda>s. take 1 s = [0xC0]),
      ReadNilBytes = (\<lambda>s. case s of b # r \<Rightarrow> if b = 0xC0 then Inr ((), r) else Inl (Errorf ''nil'')
       | [] \<Rightarrow> Inl ErrShortBytes),
      ReadUint64Bytes = (\<lambda>s. case s of
         b # r \<Rightarrow> if b = 0xCF then map_sum id (apfst of_nat) (read_be 8 r) else Inl (Errorf ''uint'')
       | [] \<Rightarrow> Inl ErrShortBytes),
      SkipBytes = (\<lambda>s. map_sum id (apfst (\<lambda>_. ())) (mp_raw s)),
      ReadArrayHeaderBytes = (\<lambda>s. case s of
         b # r \<Rightarrow> if b = 0xDD then map_sum id (apfst of_nat) (read_be 4 r) else Inl (Errorf ''array'')
       | [] \<Rightarrow> Inl ErrShortBytes),
      NextType = (\<lambda>s. case s of
         b # _ \<Rightarrow> if b = 0xDD then ArrayType
                  else if b = 0xDB \<or> (0xA0 \<le> b \<and> b \<le> 0xBF) then StrType else OtherType
       | [] \<Rightarrow> OtherType),
      ReadBasic = mp_basic,
      AppendByte = (\<lambda>b. [0xCC, b]),
      AppendString = mp_string,
      AppendIntf = (\<lambda>v. case mp_bytes v of None \<Rightarrow> Inl (Errorf ''unsupported'') | Some x \<Rightarrow> Inr x),
      AppendNil = [0xC0],
      AppendUint64 = (\<lambda>i. 0xCF # be 8 (unat i)),
      AppendArrayHeader = (\<lambda>n. 0xDD # be 4 (unat n))\<rparr>"

lemma those_Some: "those ys = Some xs \<longleftrightarrow> ys = map Some xs"
  by (induction ys arbitrary: xs) (auto split: option.splits simp: Cons_eq_map_conv)

lemma mp_bytes_nonempty: "mp_bytes v = Some x \<Longrightarrow> x \<noteq> []"
  by (cases v) (auto simp: mp_string_def split: if_splits)

lemma mp_skip_bytes:
  "mp_bytes v = Some x \<Longrightarrow> length x \<le> Suc f \<Longrightarrow> mp_skip (Suc f) (x @ r) = Some r"
proof (induction v arbitrary: x f r)
  case (GList vs)
  from GList.prems obtain xs where l: "length vs < 4294967296" and xs: "map mp_bytes vs = map Some xs"
    and x: "x = 0xDD # be 4 (length vs) @ concat xs"
    by (auto simp: those_Some split: if_splits)
  from GList.prems(2) x have g: "length (concat xs) \<le> f" by simp
  have "skip_n (mp_skip f) (length ws) (concat ys @ r) = Some r"
    if "map mp_bytes ws = map Some ys" "set ws \<subseteq> set vs" "length (concat ys) \<le> f" for ws ys
    using that
  proof (induction ws arbitrary: ys)
    case (Cons w ws)
    then obtain y zs where ys: "ys = y # zs" "mp_bytes w = Some y" "map mp_bytes ws = map Some zs"
      by (auto simp: Cons_eq_map_conv)
    then obtain h where h: "f = Suc h" using Cons.prems(3) mp_bytes_nonempty by (cases f; cases y) auto
    have "mp_skip f (y @ concat zs @ r) = Some (concat zs @ r)"
      unfolding h using Cons.prems ys h by (intro GList.IH) auto
    moreover have "skip_n (mp_skip f) (length ws) (concat zs @ r) = Some r"
      using Cons.prems ys by (intro Cons.IH) auto
    ultimately show ?case using ys by simp
  qed simp
  from this [OF xs subset_refl g] l show ?case by (simp add: x)
next
  case (GStr s)
  then show ?case by (auto simp: mp_string_def split: if_splits)
next
  case (GRaw s)
  then show ?case by (auto split: if_splits)
next
  case (GBool b)
  then show ?case by (cases b) auto
qed auto

lemma mp_raw_bytes: "mp_bytes v = Some x \<Longrightarrow> mp_raw (x @ r) = Inr (x, r)"
  using mp_skip_bytes [of v x "length (x @ r)" r] by (simp add: mp_raw_def)

lemma mp_str_fix: "length k < 32 \<Longrightarrow> mp_str ((0xA0 + of_nat (length k)) # k @ r) = Inr (k, r)"
proof -
  assume l: "length k < 32"
  have u: "unat (0xA0 + of_nat (length k) :: byte) = 160 + length k"
    using l by (simp add: unat_word_ariths unat_of_nat)
  then have "0xA0 + of_nat (length k) \<noteq> (0xDB :: byte)" "0xA0 \<le> (0xA0 + of_nat (length k) :: byte)"
    "(0xA0 + of_nat (length k) :: byte) \<le> 0xBF"
    using l by (auto simp: word_le_nat_alt dest: arg_cong [of _ _ unat])
  with u show ?thesis by (simp add: read_len_def)
qed

lemma mp_lists: "mp_bytes (GList vs) = Some x \<Longrightarrow>
   \<exists>xs. map mp_bytes vs = map Some xs \<and> x = 0xDD # be 4 (length vs) @ concat xs \<and> length vs < 4294967296"
  by (auto simp: those_Some split: if_splits)

lemma unat_32: "unat (n :: 32 word) < 4294967296"
  using unsigned_less [of n, where 'a = nat] by simp

lemma unat_64: "unat (n :: 64 word) < 18446744073709551616"
  using unsigned_less [of n, where 'a = nat] by simp

lemma mp_intf: "AppendIntf mp v = (case mp_bytes v of None \<Rightarrow> Inl (Errorf ''unsupported'') | Some x \<Rightarrow> Inr x)"
  by (simp add: mp_def)

lemma mp_ok: "msgp_ok mp"
  unfolding msgp_ok_def
proof (intro conjI allI impI)
  show "ReadStringBytes mp (AppendString mp s @ r) = Inr (s, r)" if "length s < 2 ^ 32" for s r
    using that by (simp add: mp_def mp_string_def)
  show "NextType mp (AppendString mp s @ r) = StrType" for s r
    by (simp add: mp_def mp_string_def)
  show "AppendIntf mp (GStr s) = Inr (AppendString mp s)" if "length s < 2 ^ 32" for s
    using that by (simp add: mp_def)
  show "ReadRaw mp (x @ r) = Inr (x, r)" if "AppendIntf mp v = Inr x" for v x r
    using that mp_raw_bytes by (auto simp: mp_def split: option.splits)
  show "ReadUint64Bytes mp (AppendUint64 mp i @ r) = Inr (i, r)" for i r
    using unat_64 [of i] by (simp add: mp_def)
  show "ReadArrayHeaderBytes mp (AppendArrayHeader mp n @ r) = Inr (n, r)" for n r
    using unat_32 [of n] by (simp add: mp_def)
  show "ReadMapKeyZC mp ((0xA0 + of_nat (length k)) # k @ r) = Inr (k, r)" if "length k < 32" for k r
    using mp_str_fix [OF that] by (simp add: mp_def)
  show "\<exists>xs. map (AppendIntf mp) vs = map Inr xs \<and> x = AppendArrayHeader mp (of_nat (length vs)) @ concat xs"
    if "AppendIntf mp (GList vs) = Inr x" for vs x
  proof -
    from that have "mp_bytes (GList vs) = Some x"
      by (simp add: mp_def del: mp_bytes.simps split: option.splits)
    from mp_lists [OF this] obtain xs where xs: "map mp_bytes vs = map Some xs"
      "x = 0xDD # be 4 (length vs) @ concat xs" "length vs < 4294967296" by blast
    from xs(1) have "map (AppendIntf mp) vs = map Inr xs"
      by (induction vs arbitrary: xs) (auto simp: mp_intf Cons_eq_map_conv)
    with xs(2,3) show ?thesis by (intro exI [of _ xs]) (simp add: mp_def unat_of_nat)
  qed
qed (simp_all add: mp_def)

end
