(* ===== verification/Msgp_Wire.thy ===== *)
theory Msgp_Wire
  imports Parser_Msgp Msgp_Codec
begin

text \<open>
  What the msgpack parser promises: packets that one peer packs are the packets the other peer
  reads, the values that reach a callback have its parameters' types, and what differs from the
  default parser on the wire.
\<close>

section \<open>Packets over the wire\<close>

text \<open>A packet of \<open>MarshalMsg\<close> around the bytes \<open>x\<close> of its data.\<close>

definition packet_bytes :: "msgp \<Rightarrow> sioPacket \<Rightarrow> bytes \<Rightarrow> bytes" where
  "packet_bytes M p x =
     0x84 # 0xA4 # 0x74 # 0x79 # 0x70 # 0x65 # AppendByte M (Type p) @
     0xA3 # 0x6E # 0x73 # 0x70 # AppendString M (Namespace p) @ 0xA4 # 0x64 # 0x61 # 0x74 # 0x61 # x @
     0xA2 # 0x69 # 0x64 # (case ID p of None \<Rightarrow> AppendNil M | Some i \<Rightarrow> AppendUint64 M i)"

lemma MarshalMsg_bytes: "MarshalMsg M p = map_sum id (packet_bytes M p) (AppendIntf M (Data p))"
  by (simp add: MarshalMsg_def packet_bytes_def split: sum.split)

lemma UnmarshalMsg_bytes:
  assumes ok: "msgp_ok M" and n: "length (Namespace p) < 2 ^ 32"
    and x: "\<And>r. ReadRaw M (x @ r) = Inr (x, r)"
  shows "UnmarshalMsg M z (packet_bytes M p x @ r) =
    Inr (z\<lparr>Type := Type p, Namespace := Namespace p, Data := GRaw x, ID := ID p\<rparr>, r)"
proof -
  note l = msgp_okD [OF ok]
  have k: "ReadMapKeyZC M (0xA4 # 0x74 # 0x79 # 0x70 # 0x65 # s) = Inr (key_type, s)"
    "ReadMapKeyZC M (0xA3 # 0x6E # 0x73 # 0x70 # s) = Inr (key_nsp, s)"
    "ReadMapKeyZC M (0xA4 # 0x64 # 0x61 # 0x74 # 0x61 # s) = Inr (key_data, s)"
    "ReadMapKeyZC M (0xA2 # 0x69 # 0x64 # s) = Inr (key_id, s)" for s
    using l(2) [of key_type s] l(2) [of key_nsp s] l(2) [of key_data s] l(2) [of key_id s] by simp_all
  have f1: "unmarshal_fields M (Suc i) y (0xA4 # 0x74 # 0x79 # 0x70 # 0x65 # AppendByte M (Type p) @ s) =
      unmarshal_fields M i (y\<lparr>Type := Type p\<rparr>) s" for i y s
    by (simp add: k l unmarshal_field_def)
  have f2: "unmarshal_fields M (Suc i) y (0xA3 # 0x6E # 0x73 # 0x70 # AppendString M (Namespace p) @ s) =
      unmarshal_fields M i (y\<lparr>Namespace := Namespace p\<rparr>) s" for i y s
    by (simp add: k l(4) [OF n] unmarshal_field_def)
  have f3: "unmarshal_fields M (Suc i) y (0xA4 # 0x64 # 0x61 # 0x74 # 0x61 # x @ s) =
      unmarshal_fields M i (y\<lparr>Data := GRaw x\<rparr>) s" for i y s
    by (simp add: k x unmarshal_field_def)
  let ?i = "case ID p of None \<Rightarrow> AppendNil M | Some i \<Rightarrow> AppendUint64 M i"
  have f4: "unmarshal_fields M (Suc i) y (0xA2 # 0x69 # 0x64 # ?i @ s) =
      unmarshal_fields M i (y\<lparr>ID := ID p\<rparr>) s" for i y s
    by (cases "ID p") (simp_all add: k l(8-11) unmarshal_field_def)
  have b: "packet_bytes M p x @ r = 0x84 # 0xA4 # 0x74 # 0x79 # 0x70 # 0x65 # AppendByte M (Type p) @
      0xA3 # 0x6E # 0x73 # 0x70 # AppendString M (Namespace p) @ 0xA4 # 0x64 # 0x61 # 0x74 # 0x61 # x @
      0xA2 # 0x69 # 0x64 # ?i @ r"
    by (simp add: packet_bytes_def)
  have "(4 :: nat) = Suc (Suc (Suc (Suc 0)))" by simp
  then have "unmarshal_fields M 4 z (drop 1 (packet_bytes M p x @ r)) =
      Inr (z\<lparr>Type := Type p, Namespace := Namespace p, Data := GRaw x, ID := ID p\<rparr>, r)"
    by (simp only: b drop_Suc_Cons drop0 One_nat_def f1 f2 f3 f4 unmarshal_fields.simps(1))
  then show ?thesis
    by (simp add: UnmarshalMsg_def b l(1) del: unmarshal_fields.simps)
qed

lemma Add_bytes:
  assumes "msgp_ok M" and "length (Namespace p) < 2 ^ 32" and "\<And>r. ReadRaw M (x @ r) = Inr (x, r)"
    and "length (queued d) < queued_max d"
  shows "msgpack_Add M MessageTypeBinary (packet_bytes M p x) d =
    Some (None, d\<lparr>queued := queued d @
      [mk_packet (Type p) (if Namespace p = [] then [0x2F] else Namespace p) (GRaw x) (ID p)]\<rparr>)"
  using UnmarshalMsg_bytes [OF assms(1-3), of "mk_packet 0 [] GNil None" "[]"] assms(4)
  by (simp add: msgpack_Add_def Let_def mk_packet_def)

lemma UnmarshalMsg_MarshalMsg [codec]:
  assumes "msgp_ok M" and "length (Namespace p) < 2 ^ 32"
    and x: "AppendIntf M (Data p) = Inr x" and m: "MarshalMsg M p = Inr b"
  shows "UnmarshalMsg M z (b @ r) =
    Inr (z\<lparr>Type := Type p, Namespace := Namespace p, Data := GRaw x, ID := ID p\<rparr>, r)"
  using UnmarshalMsg_bytes [OF assms(1,2) msgp_okD(7) [OF assms(1) x]] m x by (simp add: MarshalMsg_bytes)

lemma Add_MarshalMsg:
  assumes "msgp_ok M" and "length (Namespace p) < 2 ^ 32" and x: "AppendIntf M (Data p) = Inr x"
    and "MarshalMsg M p = Inr b" and "length (queued d) < queued_max d"
  shows "msgpack_Add M MessageTypeBinary b d =
    Some (None, d\<lparr>queued := queued d @
      [mk_packet (Type p) (if Namespace p = [] then [0x2F] else Namespace p) (GRaw x) (ID p)]\<rparr>)"
  using Add_bytes [OF assms(1,2) msgp_okD(7) [OF assms(1) x] assms(5)] assms(4) x by (simp add: MarshalMsg_bytes)

text \<open>
  What the library reads back for an argument type: the value, and the bytes after it.
\<close>

definition reads_back :: "msgp \<Rightarrow> (rtype \<Rightarrow> gval) \<Rightarrow> rtype \<Rightarrow> gval \<Rightarrow> bool" where
  "reads_back M zero t v \<longleftrightarrow> \<not> isTypeSocket t \<and>
     (\<forall>x r. AppendIntf M v = Inr x \<longrightarrow> msgpUnmashalArg M zero False (elem_type t) (x @ r) = Ret (Inr (v, r)))"

lemma msgpack_args_reads:
  assumes "list_all2 (reads_back M zero) ts vs" and "map (AppendIntf M) vs = map Inr xs"
  shows "msgpack_args M zero ts (concat xs @ r) = Ret (Inr (map RV vs))"
  using assms
proof (induction ts vs arbitrary: xs rule: list_all2_induct)
  case (Cons t ts v vs)
  then obtain x ys where "xs = x # ys" "AppendIntf M v = Inr x" "map (AppendIntf M) vs = map Inr ys"
    by (auto simp: Cons_eq_map_conv)
  with Cons show ?case by (auto simp: reads_back_def)
qed simp

text \<open>What a packed list of arguments is read as, behind an event's name or alone.\<close>

lemma ParseData_bytes:
  assumes "msgp_ok M" and "length ev < 2 ^ 32"
    and "Type q = PacketTypeEvent \<or> Type q = PacketTypeBinaryEvent"
    and "Data q = GRaw (AppendArrayHeader M n @ AppendString M ev @ x)"
  shows "msgpack_ParseData M q = Inr (ev, AppendArrayHeader M (n - 1) @ x, [])"
  using assms(3,4) msgp_okD(4,5) [OF assms(1,2)] msgp_okD(12,13) [OF assms(1)]
  by (auto simp: msgpack_ParseData_def)

lemma event_data:
  assumes "msgp_ok M" and "length ev < 2 ^ 32" and "AppendIntf M (GList (GStr ev # vs)) = Inr x"
    and "Type q = PacketTypeEvent \<or> Type q = PacketTypeBinaryEvent" and "Data q = GRaw x"
    and "list_all2 (reads_back M zero) ts vs"
  shows "\<exists>dat. msgpack_ParseData M q = Inr (ev, dat, []) \<and> msgpack_UnmarshalArgs M zero ts dat [] = Ret (Inr (map RV vs))"
proof -
  note l = msgp_okD [OF assms(1)]
  from l(14) [OF assms(3)] obtain xs where xs: "map (AppendIntf M) vs = map Inr xs"
    "x = AppendArrayHeader M (of_nat (Suc (length vs))) @ AppendString M ev @ concat xs"
    using l(6) [OF assms(2)] by (auto simp: Cons_eq_map_conv)
  have "msgpack_ParseData M q = Inr (ev, AppendArrayHeader M (of_nat (length vs)) @ concat xs, [])"
    using ParseData_bytes [OF assms(1,2,4), of "of_nat (Suc (length vs))" "concat xs"] assms(5) xs(2) by simp
  moreover have "msgpack_UnmarshalArgs M zero ts (AppendArrayHeader M (of_nat (length vs)) @ concat xs) [] =
      Ret (Inr (map RV vs))"
    using msgpack_args_reads [OF assms(6) xs(1), of "[]"] by (simp add: msgpack_UnmarshalArgs_def l(12))
  ultimately show ?thesis by blast
qed

lemma ack_data:
  assumes "msgp_ok M" and "AppendIntf M (GList vs) = Inr x"
    and "Type q = PacketTypeAck \<or> Type q = PacketTypeBinaryAck" and "Data q = GRaw x"
    and "list_all2 (reads_back M zero) ts vs"
  shows "msgpack_ParseData M q = Inr ([], x, []) \<and> msgpack_UnmarshalArgs M zero ts x [] = Ret (Inr (map RV vs))"
proof -
  note l = msgp_okD [OF assms(1)]
  from l(14) [OF assms(2)] obtain xs where xs: "map (AppendIntf M) vs = map Inr xs"
    "x = AppendArrayHeader M (of_nat (length vs)) @ concat xs" by blast
  then show ?thesis
    using assms(3,4) msgpack_args_reads [OF assms(5) xs(1), of "[]"]
    by (auto simp: msgpack_ParseData_def msgpack_UnmarshalArgs_def l(12,13))
qed


lemma mp_reads_string: "length s < 2 ^ 32 \<Longrightarrow> reads_back mp zero RString (GStr s)"
  by (simp add: reads_back_def isTypeSocket_def elem_type_def mp_intf mp_string_def mp_basic_def mp_def)


section \<open>Types of decoded values\<close>

text \<open>
  \<open>B\<close> says which values the library's readers and the user's own decoders give; a type that the user
  declared without one has the values of its kind.
\<close>

fun has_type :: "(rtype \<Rightarrow> gval \<Rightarrow> bool) \<Rightarrow> bool \<Rightarrow> rtype \<Rightarrow> gval \<Rightarrow> bool" where
  "has_type B named (RCustom i m b u) v = (if m then B (RCustom i m b u) v else has_type B True u v)"
| "has_type B named (RPtr u) v = has_type B False u v"
| "has_type B named (RSlice u) v =
     (if \<not> named \<and> u = RUint8 then B (RSlice u) v
      else case v of GList vs \<Rightarrow> list_all (has_type B False u) vs | _ \<Rightarrow> False)"
| "has_type B named (RArray n u) v =
     (case v of GList vs \<Rightarrow> length vs = n \<and> list_all (has_type B False u) vs | _ \<Rightarrow> False)"
| "has_type B named (RMap k e) v =
     (if \<not> named \<and> k = RString \<and> e = RInterface then B (RMap k e) v
      else case v of GMap m \<Rightarrow> distinct (map fst m) \<and> list_all (has_type B False e) (map snd m) | _ \<Rightarrow> False)"
| "has_type B named RDuration v = B RInt64 v"
| "has_type B named t v = B t v"

lemma read_elems_all:
  assumes "\<And>d v r. rd d = Ret (Inr (v, r)) \<Longrightarrow> P v" and "read_elems rd n d = Ret (Inr (vs, r))"
  shows "length vs = n \<and> list_all P vs"
  using assms(2)
proof (induction n arbitrary: d vs)
  case (Suc n)
  then obtain v d1 ws where "rd d = Ret (Inr (v, d1))" "read_elems rd n d1 = Ret (Inr (ws, r))" "vs = v # ws"
    by (auto simp: read_inv split: outcome.splits sum.splits)
  with Suc.IH assms(1) show ?case by auto
qed simp

lemma msgpReadMap_all:
  assumes "\<And>d v r. rd d = Ret (Inr (v, r)) \<Longrightarrow> P v" and "msgpReadMap M kt rd n m d = Ret (Inr (m', r))"
    and "distinct (map fst m)" and "list_all P (map snd m)"
  shows "distinct (map fst m') \<and> list_all P (map snd m')"
  using assms(2-4)
proof (induction n arbitrary: m d)
  case (Suc n)
  then obtain k v d1 d2 where r: "rd d1 = Ret (Inr (v, d2))" "msgpReadMap M kt rd n (AList.update k v m) d2 = Ret (Inr (m', r))"
    by (auto simp: read_inv split: outcome.splits sum.splits if_splits)
  have "list_all P (map snd (AList.update k v m))"
    using assms(1) [OF r(1)] Suc.prems(3) by (induction m) (auto split: if_splits)
  with Suc.IH [OF r(2)] Suc.prems(2) show ?case by (simp add: distinct_update)
qed simp

text \<open>
  C20. Whatever bytes a peer sends, a value that \<open>msgpUnmashalArg\<close> produces for a parameter type
  has that type, elements of slices and arrays and values of maps included, if the library's own
  values and the zero values have theirs.
\<close>
theorem msgpack_type_sound:
  assumes "\<And>t d v r. ReadBasic M t d = Inr (v, r) \<Longrightarrow> B t v" and "\<And>t. has_type B False t (zero t)"
    and "msgpUnmashalArg M zero named t d = Ret (Inr (v, r))"
  shows "has_type B named t v"
  using assms(3)
proof (induction t arbitrary: named d v r)
  case (RSlice u)
  show ?case
  proof (cases "\<not> named \<and> u = RUint8")
    case True
    with RSlice.prems assms(1) show ?thesis by simp
  next
    case False
    with RSlice.prems obtain sz :: "32 word" and d1 vs where
      vs: "read_elems (msgpUnmashalArg M zero False u) (unat sz) d1 = Ret (Inr (vs, r))" "v = GList vs"
      by (auto simp: read_inv split: sum.splits)
    have "length vs = unat sz \<and> list_all (has_type B False u) vs"
      by (rule read_elems_all [OF RSlice.IH vs(1)])
    with False vs(2) show ?thesis by auto
  qed
next
  case (RArray n u)
  then obtain sz :: "32 word" and d1 vs where
    r: "read_elems (msgpUnmashalArg M zero False u) (unat sz) d1 = Ret (Inr (vs, r))" "unat sz \<le> n"
    and v: "v = GList (vs @ replicate (n - unat sz) (zero u))"
    by (auto simp: read_inv split: sum.splits if_splits)
  have "length vs = unat sz \<and> list_all (has_type B False u) vs"
    by (rule read_elems_all [OF RArray.IH r(1)])
  with r(2) v assms(2) show ?case by (auto simp: list_all_iff)
next
  case (RMap k e)
  show ?case
  proof (cases "\<not> named \<and> k = RString \<and> e = RInterface")
    case True
    with RMap.prems assms(1) show ?thesis by simp
  next
    case False
    then have n: "(\<not> named \<and> k = RString \<and> e = RInterface) = False" by blast
    from RMap.prems [unfolded msgpUnmashalArg.simps n if_False] obtain sz :: "32 word" and d1 m where
      m: "msgpReadMap M k (msgpUnmashalArg M zero False e) (unat sz) [] d1 = Ret (Inr (m, r))" "v = GMap m"
      by (cases "ReadMapHeaderBytes M d") (auto simp: read_inv split: if_splits prod.splits)
    have "distinct (map fst m) \<and> list_all (has_type B False e) (map snd m)"
      by (rule msgpReadMap_all [OF RMap.IH(2) m(1)]) simp_all
    with False m(2) show ?thesis by auto
  qed
qed (use assms(1) in \<open>auto split: if_splits\<close>)

definition mp_has :: "rtype \<Rightarrow> gval \<Rightarrow> bool" where
  "mp_has t v \<longleftrightarrow> (t = RString \<longrightarrow> (\<exists>s. v = GStr s))"

fun mp_zero :: "rtype \<Rightarrow> gval" where
  "mp_zero RString = GStr []"
| "mp_zero (RPtr u) = mp_zero u"
| "mp_zero (RSlice u) = GList []"
| "mp_zero (RArray n u) = GList (replicate n (mp_zero u))"
| "mp_zero (RMap k e) = GMap []"
| "mp_zero (RCustom i m b u) = mp_zero u"
| "mp_zero t = GNil"

text \<open>A slice of strings.\<close>
theorem msgpack_type_sound_witness:
  "\<exists>v. msgpUnmashalArg mp mp_zero False (RSlice RString) (0xDD # be 4 1 @ mp_string (asc ''x'')) = Ret (Inr (v, [])) \<and>
     has_type mp_has False (RSlice RString) v"
proof -
  have "msgpUnmashalArg mp mp_zero False RString (mp_string (asc ''x'')) = Ret (Inr (GStr (asc ''x''), []))"
    using read_counted_be [of "asc ''x''" "[]"] by (simp add: mp_def mp_basic_def mp_string_def asc_def)
  then have d: "msgpUnmashalArg mp mp_zero False (RSlice RString) (0xDD # be 4 1 @ mp_string (asc ''x'')) =
      Ret (Inr (GList [GStr (asc ''x'')], []))"
    by (simp add: mp_def)
  have "has_type mp_has False (RSlice RString) (GList [GStr (asc ''x'')])"
  proof (rule msgpack_type_sound [OF _ _ d])
    show "mp_has t v" if "ReadBasic mp t d = Inr (v, r)" for t d v r
      using that by (cases t) (auto simp: mp_def mp_basic_def mp_has_def map_sum_def split: sum.splits)
    have "has_type mp_has named t (mp_zero t)" for named t
      by (induction t arbitrary: named) (auto simp: mp_has_def list_all_iff)
    then show "has_type mp_has False t (mp_zero t)" for t .
  qed
  with d show ?thesis by blast
qed

section \<open>Streams\<close>

text \<open>
  C21. The streaming methods of a packet agree with the ones on byte slices: over a reader that
  reads what the library reads from the bytes left in it, \<open>DecodeMsg\<close> gives the packet that
  \<open>UnmarshalMsg\<close> gives and leaves the same rest, or both fail; what \<open>EncodeMsg\<close> writes without an
  error is what \<open>MarshalMsg\<close> appends.
\<close>
theorem stream_methods_agree:
  assumes "stream_reader M R rest" and "stream_writer M W wrote"
  shows "(case DecodeMsg R z r of
       (Inl _, _) \<Rightarrow> \<exists>e. UnmarshalMsg M z (rest r) = Inl e
     | (Inr z', r') \<Rightarrow> UnmarshalMsg M z (rest r) = Inr (z', rest r')) \<and>
    (case EncodeMsg W z w of
       (Some _, _) \<Rightarrow> True
     | (None, w') \<Rightarrow> \<exists>b. MarshalMsg M z = Inr b \<and> wrote w' = wrote w @ b)"
  using DecodeMsg_reads [OF assms(1), of z] EncodeMsg_writes [OF assms(2), of z w]
  unfolding reads_as_def by (auto split: prod.splits option.splits)

text \<open>Streams over the codec: the bytes that are left, and the bytes written.\<close>

definition of_read :: "'a read \<Rightarrow> bytes \<Rightarrow> (goerr + 'a) \<times> bytes" where
  "of_read g s = (case g s of Inl e \<Rightarrow> (Inl e, s) | Inr (v, r) \<Rightarrow> (Inr v, r))"

definition mp_reader :: "bytes msgp_reader" where
  "mp_reader =
     \<lparr>ReadMapHeader = of_read (ReadMapHeaderBytes mp), ReadMapKeyPtr = of_read (ReadMapKeyZC mp),
      dc_ReadByte = of_read (ReadByteBytes mp), dc_ReadString = of_read (ReadStringBytes mp),
      dc_ReadRaw = of_read (ReadRaw mp), dc_IsNil = (\<lambda>s. (IsNil mp s, s)),
      dc_ReadNil = of_read (ReadNilBytes mp), dc_ReadUint64 = of_read (ReadUint64Bytes mp),
      dc_Skip = of_read (SkipBytes mp)\<rparr>"

definition mp_writer :: "bytes msgp_writer" where
  "mp_writer =
     \<lparr>en_Append = (\<lambda>x w. (None, w @ x)), en_WriteByte = (\<lambda>b w. (None, w @ AppendByte mp b)),
      en_WriteString = (\<lambda>s w. (None, w @ AppendString mp s)),
      en_WriteIntf = (\<lambda>v w. case AppendIntf mp v of Inl e \<Rightarrow> (Some e, w) | Inr x \<Rightarrow> (None, w @ x)),
      en_WriteNil = (\<lambda>w. (None, w @ AppendNil mp)), en_WriteUint64 = (\<lambda>i w. (None, w @ AppendUint64 mp i))\<rparr>"

lemma of_read_reads: "reads_as (\<lambda>s. s) (of_read g) g"
  by (rule reads_asI) (auto simp: of_read_def split: sum.splits)

text \<open>An ack written and read as a stream.\<close>
theorem stream_methods_agree_witness:
  "\<exists>b. MarshalMsg mp (mk_packet PacketTypeAck [] (GList []) None) = Inr b \<and>
     EncodeMsg mp_writer (mk_packet PacketTypeAck [] (GList []) None) [] = (None, b) \<and>
     (\<exists>z' r'. DecodeMsg mp_reader (mk_packet 0 [] GNil None) b = (Inr z', r') \<and>
        UnmarshalMsg mp (mk_packet 0 [] GNil None) b = Inr (z', r'))"
proof -
  have rd: "stream_reader mp mp_reader (\<lambda>s. s)"
    by (simp add: stream_reader_def mp_reader_def of_read_reads)
  have wr: "stream_writer mp mp_writer (\<lambda>s. s)"
    by (auto simp: stream_writer_def mp_writer_def writes_as_def split: sum.splits)
  let ?p = "mk_packet PacketTypeAck [] (GList []) None"
  obtain b where b: "EncodeMsg mp_writer ?p [] = (None, b)"
    by (simp add: EncodeMsg_def mp_writer_def mp_intf)
  have m: "MarshalMsg mp ?p = Inr b"
    using stream_methods_agree [OF rd wr, of ?p "[]" "[]"] b by auto
  have "\<exists>z'. UnmarshalMsg mp (mk_packet 0 [] GNil None) (b @ []) = Inr (z', [])"
    using UnmarshalMsg_MarshalMsg [OF mp_ok _ _ m, of "0xDD # be 4 0" "mk_packet 0 [] GNil None" "[]"]
    by (simp add: mp_intf)
  with stream_methods_agree [OF rd wr, of "mk_packet 0 [] GNil None" b "[]"] b m
  show ?thesis by (intro exI [of _ b]) (auto split: prod.splits sum.splits)
qed

end
