(* ===== verification/Sio_Run.thy ===== *)
theory Sio_Run
  imports Sio_Server Msgp_Wire
begin

text \<open>
  The server over a sequence of connections, messages and closes. The locale \<open>total_decoder\<close> states
  what its handlers rely on in a parser; both parsers of the package are interpretations of it.
\<close>

section \<open>The decoder is used by the message handler only\<close>

lemma emitPacket_decoder [simp]:
  "emitPacket P p (s\<lparr>decoder := d\<rparr>) = apsnd (decoder_update (\<lambda>_. d)) (emitPacket P p s)"
  by (cases s) (auto simp: emitPacket_def split: sum.splits prod.splits option.splits)

lemma socket_ops_decoder [simp]:
  "attachnsp nsp (s\<lparr>decoder := d\<rparr>) = (attachnsp nsp s)\<lparr>decoder := d\<rparr>"
  "detachnsp nsp (s\<lparr>decoder := d\<rparr>) = (detachnsp nsp s)\<lparr>decoder := d\<rparr>"
  "fireAck P nsp i dat buf (s\<lparr>decoder := d\<rparr>) = apsnd (decoder_update (\<lambda>_. d)) (fireAck P nsp i dat buf s)"
  by (cases s; auto simp: attachnsp_def detachnsp_def fireAck_def split: option.splits prod.splits)+

type_synonym 'd processor = "'d socket \<Rightarrow> sioPacket \<Rightarrow> ('d socket \<times> effect list) outcome"

definition decoder_free :: "'d processor \<Rightarrow> bool" where
  "decoder_free pr \<longleftrightarrow>
     (\<forall>s p d. pr (s\<lparr>decoder := d\<rparr>) p = map_outcome (apfst (decoder_update (\<lambda>_. d))) (pr s p))"

lemma process_event_decoder:
  "process_event P run n (s\<lparr>decoder := d\<rparr>) p =
     map_outcome (apfst (decoder_update (\<lambda>_. d))) (process_event P run n s p)"
  by (auto simp: process_event_def ack_def Let_def split: sum.splits prod.splits option.splits outcome.splits)

lemma process_ack_decoder:
  "process_ack P n (s\<lparr>decoder := d\<rparr>) p = map_outcome (apfst (decoder_update (\<lambda>_. d))) (process_ack P n s p)"
  by (auto simp: process_ack_def split: sum.splits prod.splits option.splits outcome.splits)

lemma Server_process_decoder: "decoder_free (Server_process P run m)"
  by (auto simp: decoder_free_def Server_process_def emitError_def process_event_decoder
      process_ack_decoder split: option.splits prod.splits)

lemma Client_process_decoder: "decoder_free (Client_process P run m)"
  by (auto simp: decoder_free_def Client_process_def process_event_decoder process_ack_decoder
      split: option.splits)

section \<open>Sessions\<close>

text \<open>
  What the engine makes the server do, and user code that emits an event on a connection's socket.
  Once the connection is closed no namespace is attached to it and such an \<open>Emit\<close> changes nothing.
\<close>

datatype server_op =
    Opened nat eioSocket
  | Message nat byte bytes
  | Closed nat
  | Emits nat bytes bytes "gval list"

definition server_step ::
  "'d Parser \<Rightarrow> (gofunc \<Rightarrow> rvalue list \<Rightarrow> gval list) \<Rightarrow> server_op \<Rightarrow> 'd server \<Rightarrow>
     ('d server \<times> effect list) option outcome" where
  "server_step P run op S =
     (case op of
        Opened i e \<Rightarrow> Ret (Some (Server_onOpen P i e S))
      | Message i mt dat \<Rightarrow> Server_onMessage P run i mt dat S
      | Closed i \<Rightarrow> (case Server_onClose i S of (S', _, effs) \<Rightarrow> Ret (Some (S', effs)))
      | Emits i nsp event args \<Rightarrow>
          (case sockets S i of
             None \<Rightarrow> Ret (Some (S, []))
           | Some s \<Rightarrow>
               (case emit P nsp event args s of
                  Panic \<Rightarrow> Panic
                | Ret (_, s') \<Rightarrow> Ret (Some (S\<lparr>sockets := (sockets S)(i \<mapsto> s')\<rparr>, [])))))"

fun server_run ::
  "'d Parser \<Rightarrow> (gofunc \<Rightarrow> rvalue list \<Rightarrow> gval list) \<Rightarrow> server_op list \<Rightarrow> 'd server \<Rightarrow>
     ('d server \<times> effect list) option outcome" where
  "server_run P run [] S = Ret (Some (S, []))"
| "server_run P run (op # ops) S =
     (case server_step P run op S of
        Panic \<Rightarrow> Panic
      | Ret None \<Rightarrow> Ret None
      | Ret (Some (S', effs)) \<Rightarrow>
          (case server_run P run ops S' of
             Panic \<Rightarrow> Panic
           | Ret None \<Rightarrow> Ret None
           | Ret (Some (T, effs')) \<Rightarrow> Ret (Some (T, effs @ effs'))))"

text \<open>
  What the server is given: messages that fit in memory; values to emit that are not nil; and
  functions, as callbacks and as handlers, whose parameters have the types \<open>okt\<close> (and no channels).
\<close>

definition callback_ok :: "(rtype \<Rightarrow> bool) \<Rightarrow> callback \<Rightarrow> bool" where
  "callback_ok okt c \<longleftrightarrow> list_all okt (cb_args c)"

definition nsp_ok :: "(rtype \<Rightarrow> bool) \<Rightarrow> namespace \<Rightarrow> bool" where
  "nsp_ok okt n \<longleftrightarrow> (\<forall>c \<in> ran (callbacks n). callback_ok okt c)"

definition arg_ok :: "(rtype \<Rightarrow> bool) \<Rightarrow> gval \<Rightarrow> bool" where
  "arg_ok okt v \<longleftrightarrow>
     (case v of
        GNil \<Rightarrow> False
      | GFunc f \<Rightarrow> \<not> list_ex bad_kind (fn_in f) \<and> list_all okt (fn_in f)
      | _ \<Rightarrow> True)"

definition op_fits :: "(rtype \<Rightarrow> bool) \<Rightarrow> server_op \<Rightarrow> bool" where
  "op_fits okt op \<longleftrightarrow>
     (case op of
        Message i mt dat \<Rightarrow> length dat \<le> max_alloc
      | Emits i nsp event args \<Rightarrow> list_all (arg_ok okt) args
      | _ \<Rightarrow> True)"

definition acks_ok :: "(rtype \<Rightarrow> bool) \<Rightarrow> 'd socket \<Rightarrow> bool" where
  "acks_ok okt s \<longleftrightarrow> (\<forall>k a c. map_of (acks s) k = Some a \<longrightarrow> c \<in> ran (ackmap a) \<longrightarrow> callback_ok okt c)"

definition server_ok :: "('d \<Rightarrow> bool) \<Rightarrow> (rtype \<Rightarrow> bool) \<Rightarrow> 'd server \<Rightarrow> bool" where
  "server_ok good okt S \<longleftrightarrow> (\<forall>s \<in> ran (sockets S). good (decoder s) \<and> acks_ok okt s) \<and>
     (\<forall>n \<in> ran (nsps S). nsp_ok okt n)"

lemma server_ok_any: "server_ok good (\<lambda>_. True) S \<longleftrightarrow> (\<forall>s \<in> ran (sockets S). good (decoder s))"
  by (simp add: server_ok_def acks_ok_def nsp_ok_def callback_ok_def list_all_iff)

lemma acks_ok_engine [simp]: "acks_ok okt (s\<lparr>engine := e\<rparr>) = acks_ok okt s" "acks_ok okt (s\<lparr>decoder := d\<rparr>) = acks_ok okt s"
  by (simp_all add: acks_ok_def)

lemma acks_ok_emitPacket: "emitPacket P p s = (r, s') \<Longrightarrow> acks_ok okt s' = acks_ok okt s \<and> decoder s' = decoder s"
  using emitPacket_engine [of P p s] by auto

lemma acks_ok_update:
  "acks_ok okt s \<Longrightarrow> (\<And>c. c \<in> ran (ackmap a) \<Longrightarrow> callback_ok okt c) \<Longrightarrow>
   acks_ok okt (s\<lparr>acks := AList.update nsp a (acks s)\<rparr>)"
  by (auto simp: acks_ok_def update_conv' split: if_splits)

lemma acks_ok_attach: "acks_ok okt s \<Longrightarrow> acks_ok okt (attachnsp nsp s)"
  unfolding attachnsp_def by (rule acks_ok_update) (simp_all add: new_ackHandle_def)

lemma acks_ok_detach: "acks_ok okt s \<Longrightarrow> acks_ok okt (detachnsp nsp s)"
  by (auto simp: acks_ok_def detachnsp_def AList.delete_conv' split: if_splits)

lemma emit_args_ok:
  assumes "list_all (arg_ok okt) args" and "\<And>c. c \<in> ran (ackmap a) \<Longrightarrow> callback_ok okt c"
  shows "\<exists>vs a' i'. emit_args args a i = Ret (vs, a', i') \<and> (\<forall>c \<in> ran (ackmap a'). callback_ok okt c)"
  using assms
proof (induction args arbitrary: a i)
  case (Cons v vs)
  show ?case
  proof (cases "\<exists>f. v = GFunc f")
    case True
    then obtain f where v: "v = GFunc f" "\<not> list_ex bad_kind (fn_in f)" "list_all okt (fn_in f)"
      using Cons.prems(1) by (auto simp: arg_ok_def)
    let ?a = "\<lparr>ack_id = ack_id a + 1, ackmap = (ackmap a)(ack_id a + 1 \<mapsto> \<lparr>cb_fn = f, cb_args = fn_in f\<rparr>)\<rparr>"
    have r: "callback_ok okt c" if "c \<in> ran (ackmap ?a)" for c
      using that v(3) Cons.prems(2) by (auto simp: ran_def callback_ok_def split: if_splits)
    have "\<exists>vs' a' i'. emit_args vs ?a (Some (ack_id a + 1)) = Ret (vs', a', i') \<and> (\<forall>c \<in> ran (ackmap a'). callback_ok okt c)"
      by (rule Cons.IH) (use Cons.prems(1) in simp, rule r)
    with v show ?thesis
      by (auto simp: onAck_newCallback newCallback_def)
  next
    case False
    have "\<exists>vs' a' i'. emit_args vs a i = Ret (vs', a', i') \<and> (\<forall>c \<in> ran (ackmap a'). callback_ok okt c)"
      by (rule Cons.IH) (use Cons.prems(1) in simp, rule Cons.prems(2))
    with False Cons.prems(1) show ?thesis by (cases v) (auto simp: arg_ok_def)
  qed
qed auto

section \<open>The contract of a decoder\<close>

text \<open>
  What the message handlers rely on: from a good state \<open>p_add\<close> returns, and once the handler
  has received the decoded packet the state is good again; for parameters of the types \<open>okt\<close>,
  \<open>p_args\<close> does not panic.
\<close>

locale total_decoder =
  fixes P :: "'d Parser" and good :: "'d \<Rightarrow> bool" and okt :: "rtype \<Rightarrow> bool"
  assumes initial: "good (p_decoder P)"
    and add_total: "good d \<Longrightarrow> length dat \<le> max_alloc \<Longrightarrow>
      \<exists>e d'. p_add P mt dat d = Ret (Some (e, d')) \<and> good (snd (p_decoded P d'))"
    and args_total: "list_all okt ts \<Longrightarrow> \<exists>r. p_args P ts dat buf = Ret r"
begin

lemma Call_total: "callback_ok okt c \<Longrightarrow> \<exists>r. Call (p_args P) so c dat buf = Ret r"
  using args_total [of "cb_args c" dat buf] by (auto simp: Call_def callback_ok_def split: sum.split)

lemma process_event_total:
  assumes "nsp_ok okt n"
  shows "\<exists>s' effs. process_event P run n s p = Ret (s', effs) \<and> acks_ok okt s' = acks_ok okt s"
proof -
  have "\<exists>r. fireEvent (p_args P) so event dat bin n = Ret r" for so event dat bin
  proof (cases "callbacks n event")
    case (Some c)
    then have "callback_ok okt c" using assms by (auto simp: nsp_ok_def ran_def)
    from Call_total [OF this, of so dat bin] Some show ?thesis by (auto simp: fireEvent_def)
  qed (simp add: fireEvent_def)
  then have f: "fireEvent (p_args P) so event dat bin n \<noteq> Panic" for so event dat bin by (metis outcome.distinct(1))
  show ?thesis
    using acks_ok_emitPacket f
    by (fastforce simp: process_event_def ack_def Let_def split: sum.splits prod.splits outcome.splits option.splits)
qed

lemma process_ack_total:
  assumes "acks_ok okt s"
  shows "\<exists>s' effs. process_ack P n s p = Ret (s', effs) \<and> acks_ok okt s'"
proof -
  have f: "\<exists>r s'. fireAck P nsp i dat bin s = (Ret r, s') \<and> acks_ok okt s'" for nsp i dat bin
  proof (cases "map_of (acks s) nsp")
    case (Some a)
    note a = Some
    show ?thesis
    proof (cases "ackmap a i")
      case (Some c)
      then have "callback_ok okt c" using assms a by (auto simp: acks_ok_def ran_def)
      from Call_total [OF this, of nsp dat bin] obtain r where r: "Call (p_args P) nsp c dat bin = Ret r" by blast
      have "acks_ok okt (s\<lparr>acks := AList.update nsp (fireAck_delete i a) (acks s)\<rparr>)"
        using assms a by (intro acks_ok_update) (auto simp: acks_ok_def fireAck_delete_def ran_def split: if_splits)
      with a Some r show ?thesis by (simp add: fireAck_def ackHandle_fireAck_def fireAck_lookup_def)
    next
      case None
      have "acks_ok okt (s\<lparr>acks := AList.update nsp a (acks s)\<rparr>)"
        using assms a by (intro acks_ok_update) (auto simp: acks_ok_def)
      with a None show ?thesis by (simp add: fireAck_def ackHandle_fireAck_def fireAck_lookup_def)
    qed
  qed (simp add: fireAck_def assms)
  show ?thesis
  proof (cases "ID p")
    case (Some i)
    show ?thesis
    proof (cases "p_parse P p")
      case (Inr x)
      obtain ev dat bin where x: "x = (ev, dat, bin)" by (cases x)
      obtain r s' where "fireAck P (Namespace p) i dat bin s = (Ret r, s')" "acks_ok okt s'" using f by blast
      with Some Inr x show ?thesis by (auto simp: process_ack_def split: sum.split option.split)
    qed (simp add: process_ack_def Some assms)
  qed (simp add: process_ack_def assms)
qed

lemma Server_process_total:
  assumes "\<forall>n \<in> ran m. nsp_ok okt n" and "acks_ok okt s"
  shows "\<exists>s' effs. Server_process P run m s p = Ret (s', effs) \<and> acks_ok okt s'"
proof (cases "m (Namespace p)")
  case None
  have "acks_ok okt (snd (emitPacket P q s))" for q
    using assms(2) acks_ok_emitPacket [of P q s] by (cases "emitPacket P q s") auto
  with None assms(2) show ?thesis by (auto simp: Server_process_def emitError_def)
next
  case (Some n)
  then have n: "nsp_ok okt n" using assms(1) by (auto simp: ran_def)
  obtain r s1 where e: "emitPacket P (mk_packet PacketTypeConnect (Namespace p) GNil None) (attachnsp (Namespace p) s) = (r, s1)"
    by fastforce
  then have "acks_ok okt s1" using acks_ok_emitPacket acks_ok_attach assms(2) by blast
  with Some e process_event_total [OF n, of run s p] process_ack_total [OF assms(2), of n p] assms(2) acks_ok_detach
  show ?thesis by (auto simp: Server_process_def)
qed

lemma receive_total:
  assumes "good (decoder s)" and "length dat \<le> max_alloc" and "decoder_free pr" and "acks_ok okt s"
    and "\<And>s p. acks_ok okt s \<Longrightarrow> \<exists>s' effs. pr s p = Ret (s', effs) \<and> acks_ok okt s'"
  shows "\<exists>s' effs. receive P pr oe mt dat s = Ret (Some (s', effs)) \<and> good (decoder s') \<and> acks_ok okt s'"
proof -
  obtain e d' where a: "p_add P mt dat (decoder s) = Ret (Some (e, d'))" "good (snd (p_decoded P d'))"
    using add_total [OF assms(1,2)] by blast
  obtain q d2 where y: "p_decoded P d' = (q, d2)" by fastforce
  have pr: "\<exists>s' effs. pr (s\<lparr>decoder := d2\<rparr>) p = Ret (s', effs) \<and> good (decoder s') \<and> acks_ok okt s'" for p
  proof -
    obtain s' effs where "pr s p = Ret (s', effs)" "acks_ok okt s'" using assms(5) [OF assms(4)] by blast
    then show ?thesis using assms(3) a(2) y by (simp add: decoder_free_def)
  qed
  show ?thesis
  proof (cases q)
    case None
    with a y assms(1,4) show ?thesis by (auto simp: receive_def socket_yield_def Let_def)
  next
    case (Some p)
    with a y assms(1,4) pr [of p] show ?thesis by (auto simp: receive_def socket_yield_def Let_def)
  qed
qed

lemma onOpen_ok: "server_ok good okt S \<Longrightarrow> server_ok good okt (fst (Server_onOpen P i e S))"
proof -
  assume g: "server_ok good okt S"
  obtain r s' where x: "emitPacket P (mk_packet PacketTypeConnect [0x2F] GNil None)
      (attachnsp [0x2F] (newSocket e P)) = (r, s')" by fastforce
  have "acks_ok okt (attachnsp [0x2F] (newSocket e P))"
    by (rule acks_ok_attach) (simp add: acks_ok_def newSocket_def)
  moreover have "decoder (attachnsp [0x2F] (newSocket e P)) = p_decoder P"
    by (simp add: attachnsp_def newSocket_def)
  ultimately have s: "acks_ok okt s'" "good (decoder s')" using acks_ok_emitPacket [OF x] initial by auto
  have n: "\<forall>n \<in> ran (snd (creatensp [0x2F] (nsps S))). nsp_ok okt n"
    using g by (cases "nsps S [0x2F]") (auto simp: server_ok_def creatensp_def nsp_ok_def new_namespace_def ran_def; blast)+
  from g x s n show ?thesis
    by (auto simp: server_ok_def Server_onOpen_def Let_def ran_def split: prod.splits)
qed

lemma onMessage_ok:
  assumes "server_ok good okt S" and "length dat \<le> max_alloc"
  shows "\<exists>S' effs. Server_onMessage P run i mt dat S = Ret (Some (S', effs)) \<and> server_ok good okt S'"
proof (cases "sockets S i")
  case None
  with assms(1) show ?thesis by (simp add: Server_onMessage_def)
next
  case (Some s)
  then have "good (decoder s)" "acks_ok okt s" using assms(1) by (auto simp: server_ok_def ran_def)
  moreover have "\<And>s p. acks_ok okt s \<Longrightarrow> \<exists>s' effs. Server_process P run (nsps S) s p = Ret (s', effs) \<and> acks_ok okt s'"
    using assms(1) by (intro Server_process_total) (simp_all add: server_ok_def)
  ultimately obtain s' effs where
    "receive P (Server_process P run (nsps S)) (server_onError S) mt dat s = Ret (Some (s', effs))"
    "good (decoder s')" "acks_ok okt s'"
    using receive_total [OF _ assms(2) Server_process_decoder] by blast
  with Some assms(1) show ?thesis by (auto simp: server_ok_def Server_onMessage_def ran_def)
qed

lemma emits_ok:
  assumes "server_ok good okt S" and "sockets S i = Some s" and "list_all (arg_ok okt) args"
  shows "\<exists>r s'. emit P nsp event args s = Ret (r, s') \<and> server_ok good okt (S\<lparr>sockets := (sockets S)(i \<mapsto> s')\<rparr>)"
proof -
  have s: "good (decoder s)" "acks_ok okt s" using assms(1,2) by (auto simp: server_ok_def ran_def)
  have "\<exists>r s'. emit P nsp event args s = Ret (r, s') \<and> good (decoder s') \<and> acks_ok okt s'"
  proof (cases "map_of (acks s) nsp")
    case (Some a)
    then have "callback_ok okt c" if "c \<in> ran (ackmap a)" for c using s(2) that by (auto simp: acks_ok_def)
    from emit_args_ok [OF assms(3) this] obtain vs a' i' where
      e: "emit_args args a None = Ret (vs, a', i')" "\<forall>c \<in> ran (ackmap a'). callback_ok okt c" by blast
    obtain r s' where p: "emitPacket P (mk_packet PacketTypeEvent nsp (GList (GStr event # vs)) i')
        (s\<lparr>acks := AList.update nsp a' (acks s)\<rparr>) = (r, s')" by fastforce
    have "acks_ok okt (s\<lparr>acks := AList.update nsp a' (acks s)\<rparr>)" using e(2) s(2) by (intro acks_ok_update) auto
    with acks_ok_emitPacket [OF p] s(1) Some e(1) p show ?thesis by (simp add: emit_def)
  qed (simp add: emit_def s)
  with assms(1) show ?thesis by (fastforce simp: server_ok_def ran_def)
qed

lemma onClose_ok: "server_ok good okt S \<Longrightarrow> server_ok good okt (fst (Server_onClose i S))"
  by (auto simp: server_ok_def Server_onClose_def detachall_def ran_def split: option.splits)

lemma step_total:
  assumes "op_fits okt op" and g: "server_ok good okt S"
  shows "\<exists>S' effs. server_step P run op S = Ret (Some (S', effs)) \<and> server_ok good okt S'"
proof (cases op)
  case (Opened i e)
  with onOpen_ok [OF g, of i e] show ?thesis
    by (cases "Server_onOpen P i e S") (simp add: server_step_def)
next
  case (Message i mt dat)
  then show ?thesis
    using onMessage_ok [OF g] assms(1) by (simp add: op_fits_def server_step_def)
next
  case (Closed i)
  then show ?thesis
    using onClose_ok [OF g, of i]
    by (cases "Server_onClose i S") (auto simp: server_step_def)
next
  case (Emits i nsp event args)
  show ?thesis
  proof (cases "sockets S i")
    case (Some s)
    from emits_ok [OF g this, of args nsp event] assms(1) Emits obtain r s' where
      "emit P nsp event args s = Ret (r, s')" "server_ok good okt (S\<lparr>sockets := (sockets S)(i \<mapsto> s')\<rparr>)"
      by (auto simp: op_fits_def)
    with Some Emits show ?thesis by (simp add: server_step_def)
  qed (simp add: server_step_def Emits g)
qed

lemma run_total:
  assumes "list_all (op_fits okt) ops" and "server_ok good okt S"
  shows "\<exists>T effs. server_run P run ops S = Ret (Some (T, effs)) \<and> server_ok good okt T"
  using assms
proof (induction ops arbitrary: S)
  case (Cons op ops)
  obtain S' effs where S': "server_step P run op S = Ret (Some (S', effs))" "server_ok good okt S'"
    using step_total [OF _ Cons.prems(2)] Cons.prems(1) by fastforce
  obtain T effs' where "server_run P run ops S' = Ret (Some (T, effs'))" "server_ok good okt T"
    using Cons.IH [OF _ S'(2)] Cons.prems(1) by auto
  with S'(1) show ?case by simp
qed simp

end

text \<open>The states between two messages: nothing decoded is left over, and the invariant.\<close>

definition dec_idle :: "defaultDecoder \<Rightarrow> bool" where
  "dec_idle d \<longleftrightarrow> dec_inv d \<and> decoded d = []"

interpretation default_decoder: total_decoder "DefaultParser into unbin zero" dec_idle "\<lambda>_. True" for into unbin zero
proof
  show "dec_idle (p_decoder (DefaultParser into unbin zero))"
    by (simp add: DefaultParser_def newDefaultDecoder_def dec_idle_def dec_inv_def)
next
  fix d and dat :: bytes and mt assume "dec_idle d" "length dat \<le> max_alloc"
  then obtain e d' where "Add mt dat d = Ret (Some (e, d'))" "dec_inv d'"
    "decoded d' = [] \<or> (\<exists>q. decoded d' = [q] \<and> attachments q = 0 \<and> e = None)"
    using Add_ok [of d dat mt] by (auto simp: dec_idle_def)
  then show "\<exists>e d'. p_add (DefaultParser into unbin zero) mt dat d = Ret (Some (e, d')) \<and>
      dec_idle (snd (p_decoded (DefaultParser into unbin zero) d'))"
    by (auto simp: DefaultParser_def yield_packet_def dec_idle_def dec_inv_def)
next
  fix ts dat buf
  show "\<exists>r. p_args (DefaultParser into unbin zero) ts dat buf = Ret r" by (simp add: DefaultParser_def)
qed

text \<open>For msgpack, nothing decoded is left over and the channel takes packets.\<close>

definition msgpack_idle :: "msgpackDecoder \<Rightarrow> bool" where
  "msgpack_idle d \<longleftrightarrow> queued d = [] \<and> 0 < queued_max d"

interpretation msgpack_decoder: total_decoder "MsgpackParser M zero" msgpack_idle settable_param for M zero
proof
  show "msgpack_idle (p_decoder (MsgpackParser M zero))"
    by (simp add: MsgpackParser_def newMsgpackDecoder_def msgpack_idle_def)
next
  fix d and dat :: bytes and mt assume "msgpack_idle d"
  then show "\<exists>e d'. p_add (MsgpackParser M zero) mt dat d = Ret (Some (e, d')) \<and>
      msgpack_idle (snd (p_decoded (MsgpackParser M zero) d'))"
    by (auto simp: MsgpackParser_def msgpack_Add_def msgpack_Decoded_def msgpack_idle_def Let_def
        split: sum.split)
next
  fix ts dat buf assume "list_all settable_param ts"
  then have "msgpack_UnmarshalArgs M zero ts dat buf \<noteq> Panic"
    by (auto simp: msgpack_UnmarshalArgs_def msgpack_args_returns split: sum.splits)
  then show "\<exists>r. p_args (MsgpackParser M zero) ts dat buf = Ret r"
    by (cases "msgpack_UnmarshalArgs M zero ts dat buf") (simp_all add: MsgpackParser_def)
qed

end
