(* ===== verification/Sio_Session.thy ===== *)
theory Sio_Session
  imports Sio_Run
begin

text \<open>
  Theorems about socket.io sessions: the server survives every sequence of connections,
  messages and closes; what it answers to packets of unknown namespaces; what closing does;
  and a request with an ack callback, from the client's \<open>Emit\<close> through the server's handler
  back to the client's callback.
\<close>

section \<open>A connection over a sequence of messages\<close>

fun receive_all ::
  "'d Parser \<Rightarrow> 'd processor \<Rightarrow> bool \<Rightarrow> (byte \<times> bytes) list \<Rightarrow>
     'd socket \<Rightarrow> ('d socket \<times> effect list) option outcome" where
  "receive_all P pr oe [] s = Ret (Some (s, []))"
| "receive_all P pr oe ((mt, dat) # ms) s =
     (case receive P pr oe mt dat s of
        Panic \<Rightarrow> Panic
      | Ret None \<Rightarrow> Ret None
      | Ret (Some (s', effs)) \<Rightarrow>
          (case receive_all P pr oe ms s' of
             Panic \<Rightarrow> Panic
           | Ret None \<Rightarrow> Ret None
           | Ret (Some (t, effs')) \<Rightarrow> Ret (Some (t, effs @ effs'))))"

text \<open>When a decoder run delivers no error and one packet, the connection processes that packet.\<close>

fun process_all :: "'d processor \<Rightarrow> sioPacket list \<Rightarrow> 'd socket \<Rightarrow> ('d socket \<times> effect list) outcome" where
  "process_all pr [] s = Ret (s, [])"
| "process_all pr (q # qs) s =
     (case pr s q of
        Panic \<Rightarrow> Panic
      | Ret (s', effs) \<Rightarrow> map_outcome (apsnd ((@) effs)) (process_all pr qs s'))"

lemma process_all_decoder:
  assumes "decoder_free pr"
  shows "process_all pr qs (s\<lparr>decoder := d\<rparr>) =
    map_outcome (apfst (decoder_update (\<lambda>_. d))) (process_all pr qs s)"
proof (induction qs arbitrary: s)
  case (Cons q qs)
  show ?case
  proof (cases "pr s q")
    case (Ret x)
    obtain s' effs where "x = (s', effs)" by fastforce
    with Ret Cons.IH [of s'] assms show ?thesis
      by (cases "process_all pr qs s'") (auto simp: decoder_free_def)
  qed (use assms in \<open>simp add: decoder_free_def\<close>)
qed simp

lemma receive_all_feed:
  assumes "decoder_free pr" and "feed ms (decoder s) = Ret (Some ([], qs, d'))"
    and "list_all (\<lambda>(mt, _). mt = MessageTypeString \<or> mt = MessageTypeBinary) ms"
  shows "receive_all (DefaultParser into unbin zero) pr oe ms s =
    map_outcome (\<lambda>x. Some (apfst (decoder_update (\<lambda>_. d')) x)) (process_all pr qs s)"
  using assms(2,3)
proof (induction ms arbitrary: s qs)
  case Nil
  then show ?case by simp
next
  case (Cons m ms)
  obtain mt dat where m: "m = (mt, dat)" by (cases m)
  let ?P = "DefaultParser into unbin zero"
  from Cons.prems(1) m obtain e d1 q d2 es qs' where
    A: "Add mt dat (decoder s) = Ret (Some (e, d1))" and y: "yield_packet d1 = (q, d2)"
    and f: "feed ms d2 = Ret (Some (es, qs', d'))"
    and eq: "case_option [] (\<lambda>e. [e]) e @ es = []" "qs = case_option [] (\<lambda>q. [q]) q @ qs'"
    by (auto split: outcome.splits option.splits prod.splits)
  then have e: "e = None" "es = []" by (auto split: option.splits)
  have mt: "mt = MessageTypeString \<or> mt = MessageTypeBinary" using Cons.prems(2) m by simp
  let ?s = "s\<lparr>decoder := d2\<rparr>"
  show ?case
  proof (cases q)
    case None
    have "receive ?P pr oe mt dat s = Ret (Some (?s, []))"
      using A y e None mt by (auto simp: receive_def DefaultParser_def socket_yield_def)
    moreover have "receive_all ?P pr oe ms ?s =
        map_outcome (\<lambda>x. Some (apfst (decoder_update (\<lambda>_. d')) x)) (process_all pr qs' ?s)"
      using f e Cons.prems(2) by (intro Cons.IH) simp_all
    ultimately show ?thesis
      using m None eq(2) process_all_decoder [OF assms(1), of qs' d2 s]
      by (cases "process_all pr qs' s") auto
  next
    case (Some p)
    show ?thesis
    proof (cases "pr s p")
      case Panic
      then have "pr ?s p = Panic" using assms(1) by (simp add: decoder_free_def)
      then have "receive ?P pr oe mt dat s = Panic"
        using A y e Some mt by (auto simp: receive_def DefaultParser_def socket_yield_def)
      with m Some eq(2) Panic show ?thesis by simp
    next
      case (Ret x)
      obtain s' effs where p: "x = (s', effs)" by fastforce
      then have p': "pr ?s p = Ret (s'\<lparr>decoder := d2\<rparr>, effs)" using assms(1) Ret by (simp add: decoder_free_def)
      have "receive ?P pr oe mt dat s = Ret (Some (s'\<lparr>decoder := d2\<rparr>, effs))"
        using A y e Some mt p' by (auto simp: receive_def DefaultParser_def socket_yield_def)
      moreover have "receive_all ?P pr oe ms (s'\<lparr>decoder := d2\<rparr>) =
          map_outcome (\<lambda>x. Some (apfst (decoder_update (\<lambda>_. d')) x)) (process_all pr qs' (s'\<lparr>decoder := d2\<rparr>))"
        using f e Cons.prems(2) by (intro Cons.IH) simp_all
      ultimately show ?thesis
        using m Some eq(2) p Ret process_all_decoder [OF assms(1), of qs' d2 s']
        by (cases "process_all pr qs' s'") auto
    qed
  qed
qed

lemma messages_types:
  "list_all (\<lambda>(mt, _). mt = MessageTypeString \<or> mt = MessageTypeBinary) (messages b bin)"
  by (simp add: messages_def list_all_iff)

text \<open>One packet sent with the default parser is one packet processed on the other side.\<close>

lemma receive_packet:
  assumes "decoder_free pr" and "sendable p" and "Data p = GList vs" and "decoded (decoder s) = []"
  shows "receive_all (DefaultParser into unbin zero) pr oe (messages (wire_text p vs) (bin_args vs)) s =
    map_outcome (\<lambda>x. Some (apfst (decoder_update (\<lambda>_. newDefaultDecoder)) x)) (pr s (delivered p vs))"
proof -
  have "feed (messages (wire_text p vs) (bin_args vs)) (decoder s) =
    Ret (Some ([], [delivered p vs], newDefaultDecoder))"
    by (rule feed_messages [OF assms(2-4)])
  from receive_all_feed [OF assms(1) this messages_types, of into unbin zero oe] show ?thesis
    by (cases "pr s (delivered p vs)") (auto simp: split_beta)
qed

lemma default_encode:
  "sendable p \<Longrightarrow> Data p = GList vs \<Longrightarrow>
   p_encode (DefaultParser into unbin zero) p = (preprocess p, Inr (wire_text p vs, bin_args vs))"
  by (simp add: DefaultParser_def Encode_list)

section \<open>Request and reply\<close>

text \<open>An argument that travels: neither nil nor a callback.\<close>

definition value_arg :: "gval \<Rightarrow> bool" where
  "value_arg v \<longleftrightarrow> (case v of GNil \<Rightarrow> False | GFunc _ \<Rightarrow> False | _ \<Rightarrow> True)"

lemma emit_args_callback:
  assumes "list_all value_arg vs" and "\<not> list_ex bad_kind (fn_in f)"
  shows "emit_args (vs @ [GFunc f]) a i =
    Ret (vs, \<lparr>ack_id = ack_id a + 1,
              ackmap = (ackmap a)(ack_id a + 1 \<mapsto> \<lparr>cb_fn = f, cb_args = fn_in f\<rparr>)\<rparr>, Some (ack_id a + 1))"
  using assms
  by (induction vs) (auto simp: value_arg_def onAck_newCallback newCallback_def split: gval.splits)

lemma sendable_cong:
  "sendable p \<Longrightarrow> Data q = Data p \<Longrightarrow> Namespace q = Namespace p \<Longrightarrow> Type q = Type p \<Longrightarrow> sendable q"
  by (simp add: sendable_def)

lemma wire_cong:
  "Type q = Type p \<Longrightarrow> Namespace q = Namespace p \<Longrightarrow> ID q = ID p \<Longrightarrow>
   wire_text q vs = wire_text p vs \<and> delivered q vs = delivered p vs"
  by (simp add: wire_text_def wire_type_def delivered_def)

text \<open>A request: the callback is pending under the id of the packet that was sent.\<close>

lemma emit_request:
  assumes "map_of (acks c) nsp = Some a" and "life (engine c) = None" and "list_all value_arg vs"
    and "\<not> list_ex bad_kind (fn_in f)"
    and "sendable (mk_packet PacketTypeEvent nsp (GList (GStr ev # vs)) (Some (ack_id a + 1)))"
  shows "emit (DefaultParser into unbin zero) nsp ev (vs @ [GFunc f]) c =
    Ret (None, c\<lparr>acks := AList.update nsp \<lparr>ack_id = ack_id a + 1,
          ackmap = (ackmap a)(ack_id a + 1 \<mapsto> \<lparr>cb_fn = f, cb_args = fn_in f\<rparr>)\<rparr> (acks c),
        engine := (engine c)\<lparr>out := out (engine c) @ as_packets (messages
          (wire_text (mk_packet PacketTypeEvent nsp (GList (GStr ev # vs)) (Some (ack_id a + 1))) (GStr ev # vs))
          (bin_args (GStr ev # vs)))\<rparr>\<rparr>)"
proof -
  have d: "Data (mk_packet PacketTypeEvent nsp (GList (GStr ev # vs)) (Some (ack_id a + 1))) = GList (GStr ev # vs)"
    by simp
  show ?thesis
    using assms(1,2) emitPacket_open [OF default_encode [OF assms(5) d]]
    by (simp add: emit_def emit_args_callback [OF assms(3,4)])
qed

text \<open>The server's reply to an event with an id, when the handler has results.\<close>

lemma Server_process_reply:
  assumes p: "sendable p" "Type p = PacketTypeEvent" "Data p = GList (GStr ev # vs)"
    and e: "plain_event ev" and n: "Namespace p \<noteq> []" "m (Namespace p) = Some n" "callbacks n ev = Some h"
    and i: "ID p = Some i"
    and u: "UnmarshalArgs into unbin zero (cb_args h) (list_text (text_args vs)) (bin_args vs) = Inr rs"
    and w: "run (cb_fn h) (put_socket (Namespace p) (cb_args h) rs) = ws" "ws \<noteq> []"
      "sendable (mk_packet PacketTypeAck (Namespace p) (GList ws) (Some i))"
    and l: "life (engine s) = None"
  shows "Server_process (DefaultParser into unbin zero) run m s (delivered p (GStr ev # vs)) =
    Ret (s\<lparr>engine := (engine s)\<lparr>out := out (engine s) @ as_packets
        (messages (wire_text (mk_packet PacketTypeAck (Namespace p) (GList ws) (Some i)) ws) (bin_args ws))\<rparr>\<rparr>,
     [Invoked (cb_fn h) (put_socket (Namespace p) (cb_args h) rs)])"
proof -
  let ?P = "DefaultParser into unbin zero" and ?q = "delivered p (GStr ev # vs)"
  let ?a = "mk_packet PacketTypeAck (Namespace p) (GList ws) (Some i)"
  let ?b = "?q\<lparr>Data := GList ws, Type := PacketTypeAck\<rparr>"
  have q: "Namespace ?q = Namespace p" "ID ?q = Some i"
    "Type ?q = PacketTypeEvent \<or> Type ?q = PacketTypeBinaryEvent"
    using p(2) n(1) i by (auto simp: delivered_def root_nsp_def wire_type_def)
  have "sendable ?b" by (rule sendable_cong [OF w(3)]) (simp_all add: q)
  moreover have "Data ?b = GList ws" by simp
  moreover have "wire_text ?b ws = wire_text ?a ws" using q wire_cong [of ?b ?a ws] by simp
  ultimately have enc: "p_encode ?P ?b = (preprocess ?b, Inr (wire_text ?a ws, bin_args ws))"
    using default_encode [of ?b ws into unbin zero] by simp
  have pd: "p_parse ?P ?q = Inr (ev, list_text (text_args vs), bin_args vs)"
    using ParseData_event [OF e p(2)] by (simp add: DefaultParser_def)
  have au: "p_args ?P = (\<lambda>ts d b. Ret (UnmarshalArgs into unbin zero ts d b))" by (simp add: DefaultParser_def)
  have ne: "ev \<noteq> []" using e by (simp add: plain_event_def)
  have sw: "?q\<lparr>Data := GList ws\<rparr>\<lparr>Type := PacketTypeAck\<rparr> = ?b" by simp
  have "process_event ?P run n s ?q =
    Ret (s\<lparr>engine := (engine s)\<lparr>out := out (engine s) @ as_packets (messages (wire_text ?a ws) (bin_args ws))\<rparr>\<rparr>,
     [Invoked (cb_fn h) (put_socket (Namespace p) (cb_args h) rs)])"
    using pd ne n(3) u w(1,2) q emitPacket_open [OF enc l]
    by (simp add: process_event_def fireEvent_def Call_def au ack_def)
  with q n(2) show ?thesis by (auto simp: Server_process_def)
qed

text \<open>The client's side of the reply.\<close>

lemma Client_process_ack:
  assumes "sendable p" "Type p = PacketTypeAck" "Data p = GList ws" "Namespace p \<noteq> []" "ID p = Some i"
    and m: "m (Namespace p) = Some n" and a: "map_of (acks c) (Namespace p) = Some a"
    and k: "ackmap a i = Some \<lparr>cb_fn = f, cb_args = fn_in f\<rparr>"
    and u: "UnmarshalArgs into unbin zero (fn_in f) (list_text (text_args ws)) (bin_args ws) = Inr rs"
  shows "Client_process (DefaultParser into unbin zero) run m c (delivered p ws) =
    Ret (c\<lparr>acks := AList.update (Namespace p) (a\<lparr>ackmap := (ackmap a)(i := None)\<rparr>) (acks c)\<rparr>,
     [Invoked f (put_socket (Namespace p) (fn_in f) rs)])"
proof -
  have q: "Namespace (delivered p ws) = Namespace p" "ID (delivered p ws) = Some i"
    "Type (delivered p ws) = PacketTypeAck \<or> Type (delivered p ws) = PacketTypeBinaryAck"
    using assms(2,4,5) by (auto simp: delivered_def root_nsp_def wire_type_def)
  have "p_parse (DefaultParser into unbin zero) (delivered p ws) = Inr ([], list_text (text_args ws), bin_args ws)"
    using ParseData_ack [OF assms(2)] by (simp add: DefaultParser_def)
  with q a k u have "process_ack (DefaultParser into unbin zero) n c (delivered p ws) =
    Ret (c\<lparr>acks := AList.update (Namespace p) (a\<lparr>ackmap := (ackmap a)(i := None)\<rparr>) (acks c)\<rparr>,
     [Invoked f (put_socket (Namespace p) (fn_in f) rs)])"
    by (simp add: process_ack_def fireAck_def ackHandle_fireAck_def fireAck_lookup_def fireAck_delete_def Call_def DefaultParser_def)
  with q m show ?thesis by (auto simp: Client_process_def)
qed

lemma Client_process_ack_again:
  assumes "sendable p" "Type p = PacketTypeAck" "Data p = GList ws" "Namespace p \<noteq> []" "ID p = Some i"
    and m: "m (Namespace p) = Some n" and a: "map_of (acks c) (Namespace p) = Some a" and k: "ackmap a i = None"
  shows "\<exists>c'. Client_process (DefaultParser into unbin zero) run m c (delivered p ws) = Ret (c', [])"
proof -
  have q: "Namespace (delivered p ws) = Namespace p" "ID (delivered p ws) = Some i"
    "Type (delivered p ws) = PacketTypeAck \<or> Type (delivered p ws) = PacketTypeBinaryAck"
    using assms(2,4,5) by (auto simp: delivered_def root_nsp_def wire_type_def)
  have "p_parse (DefaultParser into unbin zero) (delivered p ws) = Inr ([], list_text (text_args ws), bin_args ws)"
    using ParseData_ack [OF assms(2)] by (simp add: DefaultParser_def)
  with q a k m show ?thesis
    by (auto simp: Client_process_def process_ack_def fireAck_def ackHandle_fireAck_def fireAck_lookup_def)
qed

section \<open>Properties\<close>

text \<open>
  C1. Request and reply, end to end with the default parser: a client emits an event with
  arguments and a callback on an attached namespace; the server, given exactly the messages the
  client sent, calls the registered handler once with the arguments and sends its results back
  as an ack; the client, given exactly those messages, calls the callback once with the
  results; receiving the same ack again calls nothing.
\<close>
theorem rpc_roundtrip:
  assumes c: "map_of (acks c) nsp = Some a" "life (engine c) = None" "decoded (decoder c) = []"
    and vs: "list_all value_arg vs" "\<not> list_ex bad_kind (fn_in f)" "plain_event ev" "nsp \<noteq> []"
      "sendable (mk_packet PacketTypeEvent nsp (GList (GStr ev # vs)) (Some (ack_id a + 1)))"
    and s: "life (engine s) = None" "decoded (decoder s) = []"
      "m nsp = Some n" "callbacks n ev = Some h"
      "UnmarshalArgs into unbin zero (cb_args h) (list_text (text_args vs)) (bin_args vs) = Inr rs"
    and ws: "run (cb_fn h) (put_socket nsp (cb_args h) rs) = ws" "ws \<noteq> []"
      "sendable (mk_packet PacketTypeAck nsp (GList ws) (Some (ack_id a + 1)))"
      "m' nsp = Some n'"
      "UnmarshalArgs into unbin zero (fn_in f) (list_text (text_args ws)) (bin_args ws) = Inr rs'"
  shows "\<exists>c1 req s1 rep c2 c3. let P = DefaultParser into unbin zero in
    emit P nsp ev (vs @ [GFunc f]) c = Ret (None, c1) \<and>
    out (engine c1) = out (engine c) @ as_packets req \<and>
    receive_all P (Server_process P run m) oe req s =
      Ret (Some (s1, [Invoked (cb_fn h) (put_socket nsp (cb_args h) rs)])) \<and>
    out (engine s1) = out (engine s) @ as_packets rep \<and>
    receive_all P (Client_process P run' m') oe' rep c1 =
      Ret (Some (c2, [Invoked f (put_socket nsp (fn_in f) rs')])) \<and>
    receive_all P (Client_process P run' m') oe' rep c2 = Ret (Some (c3, []))"
proof -
  let ?P = "DefaultParser into unbin zero" and ?i = "ack_id a + 1" and ?cb = "\<lparr>cb_fn = f, cb_args = fn_in f\<rparr>"
  let ?a1 = "\<lparr>ack_id = ?i, ackmap = (ackmap a)(?i \<mapsto> ?cb)\<rparr>"
  let ?p = "mk_packet PacketTypeEvent nsp (GList (GStr ev # vs)) (Some ?i)"
  let ?q = "mk_packet PacketTypeAck nsp (GList ws) (Some ?i)"
  define req where "req = messages (wire_text ?p (GStr ev # vs)) (bin_args (GStr ev # vs))"
  define rep where "rep = messages (wire_text ?q ws) (bin_args ws)"
  define c1 where "c1 = c\<lparr>acks := AList.update nsp ?a1 (acks c),
    engine := (engine c)\<lparr>out := out (engine c) @ as_packets req\<rparr>\<rparr>"
  have dp: "Data ?p = GList (GStr ev # vs)" "Data ?q = GList ws" by simp_all
  have e1: "emit ?P nsp ev (vs @ [GFunc f]) c = Ret (None, c1)"
    unfolding c1_def req_def by (rule emit_request [OF c(1,2) vs(1,2,5)])
  define s0 where "s0 = s\<lparr>engine := (engine s)\<lparr>out := out (engine s) @ as_packets rep\<rparr>\<rparr>"
  have e2: "receive_all ?P (Server_process ?P run m) oe req s =
      Ret (Some (s0\<lparr>decoder := newDefaultDecoder\<rparr>, [Invoked (cb_fn h) (put_socket nsp (cb_args h) rs)]))"
  proof -
    have "Server_process ?P run m s (delivered ?p (GStr ev # vs)) =
        Ret (s0, [Invoked (cb_fn h) (put_socket nsp (cb_args h) rs)])"
      unfolding s0_def rep_def using vs s ws by (subst Server_process_reply) simp_all
    with receive_packet [OF Server_process_decoder vs(5) dp(1) s(2), of into unbin zero ?P run m oe]
    show ?thesis by (simp add: req_def)
  qed
  have k1: "map_of (acks c1) nsp = Some ?a1" "decoded (decoder c1) = []"
    using c(3) by (simp_all add: c1_def update_Some_unfold)
  define c2 where "c2 = c1\<lparr>acks := AList.update nsp (?a1\<lparr>ackmap := (ackmap ?a1)(?i := None)\<rparr>) (acks c1),
    decoder := newDefaultDecoder\<rparr>"
  have e3: "receive_all ?P (Client_process ?P run' m') oe' rep c1 =
      Ret (Some (c2, [Invoked f (put_socket nsp (fn_in f) rs')]))"
  proof -
    have "Client_process ?P run' m' c1 (delivered ?q ws) =
        Ret (c1\<lparr>acks := AList.update nsp (?a1\<lparr>ackmap := (ackmap ?a1)(?i := None)\<rparr>) (acks c1)\<rparr>,
         [Invoked f (put_socket nsp (fn_in f) rs')])"
      using ws k1 vs(4) by (subst Client_process_ack [where i = ?i and a = ?a1]) simp_all
    with receive_packet [OF Client_process_decoder ws(3) dp(2) k1(2), of into unbin zero ?P run' m' oe']
    show ?thesis by (simp add: rep_def c2_def)
  qed
  have k2: "map_of (acks c2) nsp = Some (?a1\<lparr>ackmap := (ackmap ?a1)(?i := None)\<rparr>)" "decoded (decoder c2) = []"
    by (simp_all add: c2_def update_Some_unfold newDefaultDecoder_def)
  obtain c3 where "Client_process ?P run' m' c2 (delivered ?q ws) = Ret (c3, [])"
    using Client_process_ack_again [OF ws(3) _ dp(2) _ _ _ _, where i = ?i] ws(4) vs(4) k2(1) by fastforce
  with receive_packet [OF Client_process_decoder ws(3) dp(2) k2(2), of into unbin zero ?P run' m' oe']
  have e4: "receive_all ?P (Client_process ?P run' m') oe' rep c2 =
      Ret (Some (c3\<lparr>decoder := newDefaultDecoder\<rparr>, []))" by (simp add: rep_def)
  have o: "out (engine c1) = out (engine c) @ as_packets req" "out (engine (s0\<lparr>decoder := newDefaultDecoder\<rparr>)) = out (engine s) @ as_packets rep"
    by (simp_all add: c1_def s0_def)
  show ?thesis
    unfolding Let_def using e1 e2 e3 e4 o by blast
qed

definition demo_nsp :: namespace where
  "demo_nsp = new_namespace\<lparr>callbacks := [asc ''add'' \<mapsto> \<lparr>cb_fn = fn0, cb_args = [RString]\<rparr>]\<rparr>"

lemma demo_sendable:
  "sendable (mk_packet PacketTypeEvent [0x2F] (GList [GStr (asc ''add''), GStr (asc ''x'')]) (Some 1))"
  "sendable (mk_packet PacketTypeAck [0x2F] (GList [GStr (asc ''y'')]) (Some 1))"
  "plain_event (asc ''add'')"
  by (simp_all add: sendable_def good_nsp_def plain_nsp_def is_ctl_def marshals_def max_alloc_def
      plain_event_def asc_def esc1_def)

lemma demo_args:
  "UnmarshalArgs (\<lambda>_ v. Some v) demo_unbin (\<lambda>_. GNil) [RString] (list_text [GStr (asc ''x'')]) [] = Inr [RV (GStr (asc ''x''))]"
  "UnmarshalArgs (\<lambda>_ v. Some v) demo_unbin (\<lambda>_. GNil) [RString] (list_text [GStr (asc ''y'')]) [] = Inr [RV (GStr (asc ''y''))]"
  by code_simp+

lemma demo_socket_sel:
  "map_of (acks (demo_socket l)) [0x2F] = Some new_ackHandle" "life (engine (demo_socket l)) = l"
  "decoder (demo_socket l) = newDefaultDecoder" "out (engine (demo_socket l)) = []"
  by (simp_all add: demo_socket_def attachnsp_def newSocket_def demo_parser_def DefaultParser_def)

text \<open>A handler that replies with one string.\<close>
theorem rpc_roundtrip_witness:
  "\<exists>c1 req s1 rep c2 c3. let P = DefaultParser (\<lambda>_ v. Some v) demo_unbin (\<lambda>_. GNil) in
    emit P [0x2F] (asc ''add'') ([GStr (asc ''x'')] @ [GFunc fn0]) (demo_socket None) = Ret (None, c1) \<and>
    out (engine c1) = [] @ as_packets req \<and>
    receive_all P (Server_process P (\<lambda>_ _. [GStr (asc ''y'')]) [[0x2F] \<mapsto> demo_nsp]) True req (demo_socket None) =
      Ret (Some (s1, [Invoked fn0 [RV (GStr (asc ''x''))]])) \<and>
    out (engine s1) = [] @ as_packets rep \<and>
    receive_all P (Client_process P (\<lambda>_ _. []) [[0x2F] \<mapsto> new_namespace]) True rep c1 =
      Ret (Some (c2, [Invoked fn0 [RV (GStr (asc ''y''))]])) \<and>
    receive_all P (Client_process P (\<lambda>_ _. []) [[0x2F] \<mapsto> new_namespace]) True rep c2 = Ret (Some (c3, []))"
proof -
  have ps: "put_socket [0x2F] [RString] [RV v] = [RV v]" for v by (simp add: isTypeSocket_def)
  show ?thesis
    using rpc_roundtrip [of "demo_socket None" "[0x2F]" new_ackHandle "[GStr (asc ''x'')]" fn0 "asc ''add''"
        "demo_socket None" "[[0x2F] \<mapsto> demo_nsp]" demo_nsp "\<lparr>cb_fn = fn0, cb_args = [RString]\<rparr>"
        "\<lambda>_ v. Some v" demo_unbin "\<lambda>_. GNil" "[RV (GStr (asc ''x''))]" "\<lambda>_ _. [GStr (asc ''y'')]" "[GStr (asc ''y'')]"
        "[[0x2F] \<mapsto> new_namespace]" new_namespace "[RV (GStr (asc ''y''))]" True "\<lambda>_ _. []" True]
      demo_sendable demo_args
    by (simp add: demo_socket_sel ps newDefaultDecoder_def value_arg_def fn0_def bad_kind_def new_ackHandle_def
        demo_nsp_def del: put_socket.simps receive_all.simps)
qed



text \<open>
  C32. A packet for a namespace the server does not have calls no user code and attaches
  nothing. Connect and disconnect are ignored; any other packet is answered, on an open
  connection, with one error packet for that namespace, which the client's decoder delivers.
\<close>
theorem unknown_namespace_reply:
  assumes "m (Namespace p) = None" and "good_nsp (Namespace p)" and "life (engine s) = None"
  shows "\<exists>s'. Server_process (DefaultParser into unbin zero) run m s p = Ret (s', []) \<and> acks s' = acks s \<and>
    (Type p \<le> PacketTypeDisconnect \<longrightarrow> s' = s) \<and>
    (Type p > PacketTypeDisconnect \<longrightarrow>
      (\<exists>b. out (engine s') = out (engine s) @ as_packets (messages b []) \<and>
        feed (messages b []) newDefaultDecoder =
          Ret (Some ([], [mk_packet PacketTypeError (root_nsp (Namespace p))
            (GStr (asc ''namespace unavailable'')) None], newDefaultDecoder))))"
proof -
  let ?q = "mk_packet PacketTypeError (Namespace p) (GStr (asc ''namespace unavailable'')) None"
  have "control ?q"
    using assms(2) by (simp add: control_def asc_def arg_text_def json_string_def)
  then obtain p' b where e: "Encode ?q = (p', Inr (b, []))" and f: "feed (messages b []) newDefaultDecoder =
      Ret (Some ([], [mk_packet (Type ?q) (root_nsp (Namespace ?q)) (Data ?q) None], newDefaultDecoder))"
    using feed_control [of ?q newDefaultDecoder] by (auto simp: newDefaultDecoder_def)
  have "p_encode (DefaultParser into unbin zero) ?q = (p', Inr (b, []))" using e by (simp add: DefaultParser_def)
  from emitPacket_open [OF this assms(3)] f assms(1) show ?thesis
    by (auto simp: Server_process_def emitError_def not_le [symmetric])
qed

text \<open>An event for a namespace nobody registered.\<close>
theorem unknown_namespace_reply_witness:
  "\<exists>s'. Server_process demo_parser (\<lambda>_ _. []) Map.empty (demo_socket None)
      (mk_packet PacketTypeEvent (asc ''/a'') (GRaw []) None) = Ret (s', []) \<and> acks s' = acks (demo_socket None) \<and>
    (\<exists>b. out (engine s') = as_packets (messages b []) \<and>
        feed (messages b []) newDefaultDecoder =
          Ret (Some ([], [mk_packet PacketTypeError (asc ''/a'')
            (GStr (asc ''namespace unavailable'')) None], newDefaultDecoder)))"
proof -
  have g: "good_nsp (asc ''/a'')" "root_nsp (asc ''/a'') = asc ''/a''"
    by (simp_all add: good_nsp_def plain_nsp_def asc_def is_ctl_def root_nsp_def)
  show ?thesis
    using unknown_namespace_reply [of Map.empty "mk_packet PacketTypeEvent (asc ''/a'') (GRaw []) None"
        "demo_socket None" "\<lambda>_ v. Some v" demo_unbin "\<lambda>_. GNil" "\<lambda>_ _. []"] g
    by (simp add: demo_socket_sel demo_parser_def del: feed.simps) blast
qed

lemma detach_loop_set:
  "set (detach_loop m xs) =
     {Disconnected f k | f k n. k \<in> fst ` set xs \<and> m k = Some n \<and> onDisconnect n = Some f}"
proof -
  have "e \<in> set (detach_loop m xs) \<longleftrightarrow>
      (\<exists>(k, a) \<in> set xs. \<exists>n f. m k = Some n \<and> onDisconnect n = Some f \<and> e = Disconnected f k)" for e
    by (induction m xs rule: detach_loop.induct) (auto simp: call_nsp_def split: option.splits dest: sym)
  then have "e \<in> set (detach_loop m xs) \<longleftrightarrow>
      (\<exists>f k n. e = Disconnected f k \<and> k \<in> fst ` set xs \<and> m k = Some n \<and> onDisconnect n = Some f)" for e
    by (simp add: image_iff split_beta) blast
  then show ?thesis by (intro set_eqI) simp
qed

lemma detach_loop_distinct: "distinct (map fst xs) \<Longrightarrow> distinct (detach_loop m xs)"
proof (induction m xs rule: detach_loop.induct)
  case (2 m k a r)
  then have "Disconnected f k \<notin> set (detach_loop m r)" for f by (auto simp: detach_loop_set)
  with 2 show ?case by (auto simp: call_nsp_def split: option.splits)
qed simp

text \<open>
  C23. Closing a connection: the server forgets it, its engine socket refuses further packets
  and no namespace stays attached; the disconnect handler of every attached namespace that has
  one is called exactly once and no other user code; messages that still arrive are ignored.
\<close>
theorem close_detaches:
  assumes "sockets S i = Some s" and "distinct (map fst (acks s))"
  shows "\<exists>S' s' effs. Server_onClose i S = (S', Some s', effs) \<and> sockets S' i = None \<and>
    life (engine s') = Some 0 \<and> acks s' = [] \<and> distinct effs \<and>
    set effs = {Disconnected f k | f k n. k \<in> fst ` set (acks s) \<and> nsps S k = Some n \<and> onDisconnect n = Some f} \<and>
    Server_onMessage P run i mt dat S' = Ret (Some (S', []))"
  using assms
  by (auto simp: Server_onClose_def detachall_def socket_Close_def Socket_Close_def Server_onMessage_def
      detach_loop_set detach_loop_distinct)

text \<open>The demo connection on a server that watches the root namespace.\<close>
theorem close_detaches_witness:
  "\<exists>S' s' effs. Server_onClose 4 \<lparr>sockets = [4 \<mapsto> demo_socket None], server_onError = False,
        nsps = [[0x2F] \<mapsto> OnDisconnect 9 new_namespace]\<rparr> = (S', Some s', effs) \<and> sockets S' 4 = None \<and>
    life (engine s') = Some 0 \<and> acks s' = [] \<and> set effs = {Disconnected 9 [0x2F]} \<and>
    Server_onMessage demo_parser (\<lambda>_ _. []) 4 0 (asc ''2[]'') S' = Ret (Some (S', []))"
proof -
  have "acks (demo_socket None) = [([0x2F], new_ackHandle)]"
    by (simp add: demo_socket_def attachnsp_def newSocket_def)
  then show ?thesis
    using close_detaches [of "\<lparr>sockets = [4 \<mapsto> demo_socket None], server_onError = False,
        nsps = [[0x2F] \<mapsto> OnDisconnect 9 new_namespace]\<rparr>" 4 "demo_socket None" demo_parser "\<lambda>_ _. []" 0 "asc ''2[]''"]
    by (fastforce simp: OnDisconnect_def new_namespace_def)
qed

text \<open>
  The reply to a binary event whose handler has no results carries the attachments that the
  event came with: \<open>preprocess\<close> does not reset \<open>buffer\<close> when there is no data. The ack is sent as
  an ack without attachments, followed by one binary message for each buffer received, and the
  peer's decoder rejects each of these.
\<close>
theorem empty_reply_resends_buffers:
  assumes "m [0x2F] = Some n" and "callbacks n ev = None" and "ev \<noteq> []" and "life (engine s) = None"
    and "ParseData q = Inr (ev, dat, bin)" and "Type q = PacketTypeBinaryEvent"
    and "Namespace q = [0x2F]" and "ID q = Some i"
  shows "\<exists>s' b. Server_process (DefaultParser into unbin zero) run m s q = Ret (s', []) \<and>
    out (engine s') = out (engine s) @ as_packets (messages b (buffer q)) \<and> b = 0x33 # dec (unat i)"
proof -
  let ?P = "DefaultParser into unbin zero" and ?a = "q\<lparr>Data := GNil, Type := PacketTypeAck\<rparr>"
  have e: "p_encode ?P ?a = (?a\<lparr>attachments := 0\<rparr>, Inr (0x33 # dec (unat i), buffer q))"
    using assms(7,8) by (simp add: DefaultParser_def Encode_def preprocess_def encodeTo_def Let_def)
  have "process_event ?P run n s q = Ret (s\<lparr>engine := (engine s)\<lparr>out := out (engine s) @
      as_packets (messages (0x33 # dec (unat i)) (buffer q))\<rparr>\<rparr>, [])"
    using assms(2,3,5,8) emitPacket_open [OF e assms(4)]
    by (simp add: process_event_def fireEvent_def ack_def DefaultParser_def)
  with assms(1,6,7) show ?thesis by (auto simp: Server_process_def)
qed

definition stale_packet :: sioPacket where
  "stale_packet = \<lparr>Type = PacketTypeBinaryEvent, Namespace = [0x2F], Data = GRaw (asc ''[\"e\"]''),
     ID = Some 1, attachments = 0, buffer = [[7]]\<rparr>"

text \<open>An event with one attachment and no handler.\<close>
theorem empty_reply_resends_buffers_witness:
  "(\<exists>s' b. Server_process (DefaultParser (\<lambda>_ v. Some v) demo_unbin (\<lambda>_. GNil)) (\<lambda>_ _. []) [[0x2F] \<mapsto> new_namespace]
      (demo_socket None) stale_packet = Ret (s', []) \<and>
    out (engine s') = out (engine (demo_socket None)) @ as_packets (messages b [[7]]) \<and> b = 0x33 # dec (unat (1 :: uint64))) \<and>
   Add MessageTypeBinary [7] newDefaultDecoder = Ret (Some (Some ErrUnknownPacket, newDefaultDecoder))"
proof -
  have p: "ParseData stale_packet = Inr (asc ''e'', asc ''[]'', [[7]])" by code_simp
  show ?thesis
    using empty_reply_resends_buffers [of "[[0x2F] \<mapsto> new_namespace]" new_namespace "asc ''e''" "demo_socket None"
        stale_packet "asc ''[]''" "[[7]]" 1 "\<lambda>_ v. Some v" demo_unbin "\<lambda>_. GNil" "\<lambda>_ _. []"] p
    by (simp add: demo_socket_sel new_namespace_def stale_packet_def asc_def Add_def newDefaultDecoder_def)
qed

end
