(* ===== verification/Sio_Msgpack.thy ===== *)
theory Sio_Msgpack
  imports Sio_Session
begin

text \<open>
  An event over the msgpack parser, from \<open>emitPacket\<close> to the server's handler.
\<close>

lemma put_socket_none:
  "list_all2 (reads_back M zero) ts vs \<Longrightarrow> put_socket so ts (map RV vs) = map RV vs"
  by (induction ts vs rule: list_all2_induct) (auto simp: reads_back_def)

lemma msgpack_emit:
  assumes "MarshalMsg M p = Inr m" and "Type p = PacketTypeEvent" and "life (engine c) = None"
  shows "emitPacket (MsgpackParser M zero) p c =
    (None, c\<lparr>engine := (engine c)\<lparr>out := out (engine c) @
       [\<lparr>msgType = MessageTypeString, pktType = PacketTypeMessage, data = []\<rparr>,
        \<lparr>msgType = MessageTypeBinary, pktType = PacketTypeMessage, data = m\<rparr>]\<rparr>\<rparr>)"
  using assms
  by (simp add: emitPacket_def MsgpackParser_def msgpack_Encode_def Socket_Emit_message submit_def)

lemma msgpack_empty_text:
  assumes "queued (decoder s) = []"
  shows "receive (MsgpackParser M zero) pr True MessageTypeString [] s = Ret (Some (s, [GlobalError JsonError]))"
  using assms
  by (simp add: receive_def MsgpackParser_def msgpack_Add_def packet_of_json_def json_fields_def json_unmarshal_def
      socket_yield_def msgpack_Decoded_def)

lemma msgpack_receive:
  assumes "msgpack_Add M MessageTypeBinary m (decoder s) = Some (None, (decoder s)\<lparr>queued := [q]\<rparr>)"
    and "queued (decoder s) = []" and "pr s q = Ret (s', effs)"
  shows "receive (MsgpackParser M zero) pr oe MessageTypeBinary m s = Ret (Some (s', effs))"
proof -
  have d: "(decoder s)\<lparr>queued := []\<rparr> = decoder s" using assms(2) by (cases "decoder s") simp
  have e: "s\<lparr>decoder := (decoder s)\<lparr>queued := []\<rparr>\<rparr> = s" unfolding d by simp
  show ?thesis
    using assms by (simp add: e receive_def MsgpackParser_def socket_yield_def msgpack_Decoded_def)
qed

text \<open>
  C19. An event sent with the msgpack parser reaches the other side as two messages, of which the
  first is an empty text: it is not JSON, so the server reports an error to its error handler
  before it calls the event's handler, once, with the sender's values.
\<close>
theorem msgpack_event_call:
  assumes "msgp_ok M" and "length nsp < 2 ^ 32" and "length ev < 2 ^ 32" and "nsp \<noteq> []" and "ev \<noteq> []"
    and "MarshalMsg M (mk_packet PacketTypeEvent nsp (GList (GStr ev # vs)) None) = Inr m"
    and "life (engine c) = None" and "queued (decoder s) = []" and "0 < queued_max (decoder s)"
    and "store nsp = Some n" and "callbacks n ev = Some f" and "list_all2 (reads_back M zero) (cb_args f) vs"
  shows "\<exists>c'. emitPacket (MsgpackParser M zero) (mk_packet PacketTypeEvent nsp (GList (GStr ev # vs)) None) c =
      (None, c') \<and>
    out (engine c') = out (engine c) @ as_packets [(MessageTypeString, []), (MessageTypeBinary, m)] \<and>
    receive_all (MsgpackParser M zero) (Server_process (MsgpackParser M zero) run store) True
      [(MessageTypeString, []), (MessageTypeBinary, m)] s =
      Ret (Some (s, [GlobalError JsonError, Invoked (cb_fn f) (map RV vs)]))"
proof -
  let ?P = "MsgpackParser M zero" and ?p = "mk_packet PacketTypeEvent nsp (GList (GStr ev # vs)) None"
  obtain x where x: "AppendIntf M (Data ?p) = Inr x" using assms(6) by (auto simp: MarshalMsg_def split: sum.splits)
  let ?q = "mk_packet PacketTypeEvent nsp (GRaw x) None"
  have a: "msgpack_Add M MessageTypeBinary m (decoder s) = Some (None, (decoder s)\<lparr>queued := [?q]\<rparr>)"
    using Add_MarshalMsg [OF assms(1) _ x assms(6), of "decoder s"] assms(2,4,8,9) by simp
  obtain dat where d: "msgpack_ParseData M ?q = Inr (ev, dat, [])"
    "msgpack_UnmarshalArgs M zero (cb_args f) dat [] = Ret (Inr (map RV vs))"
    using event_data [OF assms(1,3) _ _ _ assms(12), of x ?q] x by auto
  have "Server_process ?P run store s ?q = Ret (s, [Invoked (cb_fn f) (map RV vs)])"
    using assms(5,10,11) d put_socket_none [OF assms(12)]
    by (simp add: Server_process_def process_event_def fireEvent_def Call_def MsgpackParser_def)
  from msgpack_receive [where pr = "Server_process ?P run store" and oe = True, OF a assms(8) this] msgpack_empty_text [OF assms(8)] msgpack_emit [OF assms(6) _ assms(7)]
  show ?thesis by (auto simp: as_packets_def)
qed

definition demo_cb :: callback where
  "demo_cb = \<lparr>cb_fn = \<lparr>fn_id = 1, fn_in = [RString], fn_out = 0, fn_variadic = False\<rparr>, cb_args = [RString]\<rparr>"

text \<open>An event with one string.\<close>
theorem msgpack_event_call_witness:
  "\<exists>m c'. emitPacket (MsgpackParser mp (\<lambda>_. GNil))
      (mk_packet PacketTypeEvent [0x2F] (GList [GStr (asc ''e''), GStr (asc ''x'')]) None)
      (newSocket (new_eioSocket []) (MsgpackParser mp (\<lambda>_. GNil))) = (None, c') \<and>
    receive_all (MsgpackParser mp (\<lambda>_. GNil)) (Server_process (MsgpackParser mp (\<lambda>_. GNil)) (\<lambda>_ _. [])
        [[0x2F] \<mapsto> new_namespace\<lparr>callbacks := [asc ''e'' \<mapsto> demo_cb]\<rparr>]) True
      [(MessageTypeString, []), (MessageTypeBinary, m)]
      (newSocket (new_eioSocket []) (MsgpackParser mp (\<lambda>_. GNil))) =
      Ret (Some (newSocket (new_eioSocket []) (MsgpackParser mp (\<lambda>_. GNil)),
        [GlobalError JsonError, Invoked (cb_fn demo_cb) [RV (GStr (asc ''x''))]]))"
proof -
  let ?p = "mk_packet PacketTypeEvent [0x2F] (GList [GStr (asc ''e''), GStr (asc ''x'')]) None"
  let ?s = "newSocket (new_eioSocket []) (MsgpackParser mp (\<lambda>_. GNil))"
  obtain m where m: "MarshalMsg mp ?p = Inr m" by (simp add: MarshalMsg_def mp_intf asc_def)
  have s: "life (engine ?s) = None" "queued (decoder ?s) = []" "0 < queued_max (decoder ?s)"
    by (simp_all add: newSocket_def new_eioSocket_def MsgpackParser_def newMsgpackDecoder_def)
  have "list_all2 (reads_back mp (\<lambda>_. GNil)) (cb_args demo_cb) [GStr (asc ''x'')]"
    by (simp add: demo_cb_def mp_reads_string asc_def)
  from msgpack_event_call [OF mp_ok _ _ _ _ m s _ _ this, where n = "new_namespace\<lparr>callbacks := [asc ''e'' \<mapsto> demo_cb]\<rparr>"
      and store = "[[0x2F] \<mapsto> new_namespace\<lparr>callbacks := [asc ''e'' \<mapsto> demo_cb]\<rparr>]" and run = "\<lambda>_ _. []"]
  obtain c' where "emitPacket (MsgpackParser mp (\<lambda>_. GNil)) ?p ?s = (None, c')"
    "receive_all (MsgpackParser mp (\<lambda>_. GNil)) (Server_process (MsgpackParser mp (\<lambda>_. GNil)) (\<lambda>_ _. [])
        [[0x2F] \<mapsto> new_namespace\<lparr>callbacks := [asc ''e'' \<mapsto> demo_cb]\<rparr>]) True
      [(MessageTypeString, []), (MessageTypeBinary, m)] ?s =
      Ret (Some (?s, [GlobalError JsonError, Invoked (cb_fn demo_cb) [RV (GStr (asc ''x''))]]))"
    by (auto simp: asc_def)
  then show ?thesis by blast
qed

section \<open>A panic\<close>

text \<open>
  A server with a handler for one parameter, a map whose keys have a string type that the user
  declared, and an event packet with a map of one entry.
\<close>

definition key_cb :: callback where
  "key_cb = \<lparr>cb_fn = \<lparr>fn_id = 1, fn_in = [RMap (RCustom 0 False False RString) RBool], fn_out = 0, fn_variadic = False\<rparr>,
     cb_args = [RMap (RCustom 0 False False RString) RBool]\<rparr>"

definition key_server :: "msgpackDecoder server" where
  "key_server =
     \<lparr>sockets = [1 \<mapsto> newSocket (new_eioSocket []) (MsgpackParser mp mp_zero)], server_onError = True,
      nsps = [[0x2F] \<mapsto> new_namespace\<lparr>callbacks := [[0x65] \<mapsto> key_cb]\<rparr>]\<rparr>"

definition key_data :: bytes where
  "key_data = AppendArrayHeader mp 2 @ AppendString mp [0x65] @ [0x81, 0xDB, 0, 0, 0, 1, 0x6B, 0xC3]"

lemma key_data_eq: "key_data = [0xDD, 0, 0, 0, 2, 0xDB, 0, 0, 0, 1, 0x65, 0x81, 0xDB, 0, 0, 0, 1, 0x6B, 0xC3]"
proof -
  have "be 4 2 = [0, 0, 0, 2]" "be 4 1 = [0, 0, 0, 1]" by code_simp+
  then show ?thesis by (simp add: key_data_def mp_def mp_string_def)
qed

lemma skip_2: "skip_n f 2 s = Option.bind (f s) f"
  by (cases "f s") (auto simp: numeral_2_eq_2 split: option.split)

lemma key_data_raw: "ReadRaw mp (key_data @ r) = Inr (key_data, r)"
proof -
  have c: "mp_skip (Suc f) (0xDB # 0 # 0 # 0 # 1 # c # t) = Some t" for f c t
    by (simp add: read_counted_def read_be_def unbe_def read_len_def)
  have t: "mp_skip (Suc f) (0xC3 # t) = Some t" for f t by simp
  have m: "mp_skip (Suc (Suc f)) (0x81 # 0xDB # 0 # 0 # 0 # 1 # c # 0xC3 # t) = Some t" for f c t
    by (subst mp_skip.simps(3)) (simp add: c t skip_2 del: mp_skip.simps)
  have "mp_skip (Suc (Suc (Suc f))) (key_data @ r) = Some r" for f
    unfolding key_data_eq append_Cons append_Nil
    by (subst mp_skip.simps(3)) (simp add: c m read_be_def unbe_def skip_2 del: mp_skip.simps)
  from this [of "length (key_data @ r) - 2"]
  have "mp_skip (Suc (length (key_data @ r))) (key_data @ r) = Some r" by (simp add: key_data_eq)
  then show ?thesis by (simp add: mp_def mp_raw_def del: mp_skip.simps)
qed

lemma key_args_panic:
  "msgpack_UnmarshalArgs mp mp_zero [RMap (RCustom 0 False False RString) RBool]
     (AppendArrayHeader mp 1 @ [0x81, 0xDB, 0, 0, 0, 1, 0x6B, 0xC3]) [] = Panic"
  by (simp add: msgpack_UnmarshalArgs_def mp_def read_be_def unbe_def isTypeSocket_def elem_type_def
      bad_elem_kind_def read_counted_def read_len_def mp_basic_def)

text \<open>
  One message from a peer panics in the reading goroutine, which nothing recovers: it takes the
  whole server down.
\<close>

theorem map_key_message_panics:
  "Server_onMessage (MsgpackParser mp mp_zero) run 1 MessageTypeBinary
     (packet_bytes mp (mk_packet PacketTypeEvent [0x2F] GNil None) key_data) key_server = Panic"
proof -
  let ?q = "mk_packet PacketTypeEvent [0x2F] (GRaw key_data) None"
  have a: "msgpack_Add mp MessageTypeBinary (packet_bytes mp (mk_packet PacketTypeEvent [0x2F] GNil None) key_data)
      (newMsgpackDecoder 8) = Some (None, (newMsgpackDecoder 8)\<lparr>queued := [?q]\<rparr>)"
    using Add_bytes [OF mp_ok _ key_data_raw, of "mk_packet PacketTypeEvent [0x2F] GNil None" "newMsgpackDecoder 8"]
    by (simp add: newMsgpackDecoder_def)
  have "msgpack_ParseData mp ?q = Inr ([0x65], AppendArrayHeader mp 1 @ [0x81, 0xDB, 0, 0, 0, 1, 0x6B, 0xC3], [])"
    using ParseData_bytes [OF mp_ok, of "[0x65]" ?q 2] by (simp add: key_data_def)
  then have "process_event (MsgpackParser mp mp_zero) run (new_namespace\<lparr>callbacks := [[0x65] \<mapsto> key_cb]\<rparr>) s ?q = Panic" for s
    using key_args_panic by (simp add: process_event_def MsgpackParser_def fireEvent_def Call_def key_cb_def)
  with a show ?thesis
    by (simp add: Server_onMessage_def key_server_def receive_def newSocket_def MsgpackParser_def [of mp mp_zero, abs_def]
        socket_yield_def msgpack_Decoded_def Server_process_def)
qed

end
