(* ===== verification/Engine_Polling.thy ===== *)
theory Engine_Polling
  imports Engine_Payload Go_Json Fifo
begin

text \<open>
  \<open>engine/polling.go\<close>: a connection over HTTP polling. Two buffered channels carry packets
  between the HTTP handlers and the rest of the engine; every operation is a \<open>select\<close> over
  them, the \<open>closed\<close> and \<open>paused\<close> channels and a deadline, so it gives the list of the outcomes
  it may commit to, and none when it blocks. Time is an integer; whether the timer of a
  deadline has fired when the \<open>select\<close> commits is an argument. \<open>err_text\<close> stands for the
  \<open>Error()\<close> texts that responses quote.
\<close>

section \<open>HTTP headers\<close>

text \<open>
  The two helpers of \<open>engine/transport.go\<close>: headers are maps from names to lists of values. A
  clone holds the same values in fresh slices, so here it is the map itself.
\<close>

type_synonym http_header = "bytes \<rightharpoonup> bytes list"

definition cloneHTTPHeader :: "http_header \<Rightarrow> http_header" where
  "cloneHTTPHeader h = h"

definition copyHeaderFrom :: "http_header \<Rightarrow> http_header \<Rightarrow> http_header" where
  "copyHeaderFrom header from = (\<lambda>k. case header k of None \<Rightarrow> from k | Some vv \<Rightarrow> Some vv)"

section \<open>The connection\<close>

record pollingConn =
  inq :: "eioPacket list"
  outq :: "eioPacket list"
  bufSize :: nat
  pclosed :: bool
  paused :: bool
  readDeadline :: "int option"
  writeDeadline :: "int option"
  localAddr :: bytes
  remoteAddr :: bytes
  pheader :: http_header

definition newPollingConn :: "nat \<Rightarrow> bytes \<Rightarrow> bytes \<Rightarrow> http_header \<Rightarrow> pollingConn" where
  "newPollingConn n la ra header =
     \<lparr>inq = [], outq = [], bufSize = n, pclosed = False, paused = False, readDeadline = None,
      writeDeadline = None, localAddr = la, remoteAddr = ra, pheader = cloneHTTPHeader header\<rparr>"

abbreviation (input) plain_conn :: "nat \<Rightarrow> pollingConn" where
  "plain_conn n \<equiv> newPollingConn n [] [] Map.empty"

definition Polling_Close :: "pollingConn \<Rightarrow> pollingConn" where
  "Polling_Close c = c\<lparr>pclosed := True\<rparr>"

text \<open>
  The \<open>in\<close> and \<open>out\<close> channels are never closed, so their \<open>!ok\<close> branches do not occur. A
  deadline of \<open>None\<close> is one never stored or the zero time.
\<close>

definition Polling_ReadPacket :: "int \<Rightarrow> bool \<Rightarrow> pollingConn \<Rightarrow> ((goerr + eioPacket) \<times> pollingConn) list" where
  "Polling_ReadPacket now fired c =
     (if pclosed c then [(Inl ErrPollingConnClosed, c)]
      else case readDeadline c of
        Some t \<Rightarrow>
          if t - now > 0 then
            go_select
              [(pclosed c, (Inl ErrPollingConnClosed, c)),
               (inq c \<noteq> [], (Inr (hd (inq c)), c\<lparr>inq := tl (inq c)\<rparr>)),
               (paused c, (Inl ErrPollingConnPaused, c)),
               (fired, (Inl ErrPollingConnReadTimeout, c))]
          else [(Inl ErrPollingConnReadTimeout, c)]
      | None \<Rightarrow>
          go_select
            [(pclosed c, (Inl ErrPollingConnClosed, c)),
             (inq c \<noteq> [], (Inr (hd (inq c)), c\<lparr>inq := tl (inq c)\<rparr>)),
             (paused c, (Inl ErrPollingConnPaused, c))])"

definition FlushOut :: "pollingConn \<Rightarrow> eioPacket list \<times> pollingConn" where
  "FlushOut c = (outq c, c\<lparr>outq := []\<rparr>)"

definition FlushIn :: "pollingConn \<Rightarrow> eioPacket list \<times> pollingConn" where
  "FlushIn c = (inq c, c\<lparr>inq := []\<rparr>)"

definition noop_packet :: eioPacket where
  "noop_packet = \<lparr>msgType = MessageTypeString, pktType = PacketTypeNoop, data = []\<rparr>"

definition ReadPacketOut :: "bool \<Rightarrow> pollingConn \<Rightarrow> ((goerr + eioPacket) \<times> pollingConn) list" where
  "ReadPacketOut ctx_done c =
     (if pclosed c then [(Inl ErrPollingConnClosed, c)]
      else go_select
        [(pclosed c, (Inl ErrPollingConnClosed, c)),
         (outq c \<noteq> [], (Inr (hd (outq c)), c\<lparr>outq := tl (outq c)\<rparr>)),
         (paused c, (Inr noop_packet, c)),
         (ctx_done, (Inl ErrPollingRequestCanceled, c))])"

definition Polling_WritePacket :: "int \<Rightarrow> bool \<Rightarrow> eioPacket \<Rightarrow> pollingConn \<Rightarrow> (goerr option \<times> pollingConn) list" where
  "Polling_WritePacket now fired p c =
     (if pclosed c then [(Some ErrPollingConnClosed, c)]
      else case writeDeadline c of
        Some t \<Rightarrow>
          if t - now > 0 then
            go_select
              [(pclosed c, (Some ErrPollingConnClosed, c)),
               (length (outq c) < bufSize c, (None, c\<lparr>outq := outq c @ [p]\<rparr>)),
               (fired, (Some ErrPollingConnWriteTimeout, c)),
               (paused c, (Some ErrPollingConnPaused, c))]
          else [(Some ErrPollingConnWriteTimeout, c)]
      | None \<Rightarrow>
          go_select
            [(pclosed c, (Some ErrPollingConnClosed, c)),
             (length (outq c) < bufSize c, (None, c\<lparr>outq := outq c @ [p]\<rparr>)),
             (paused c, (Some ErrPollingConnPaused, c))])"

definition Polling_SetReadDeadline :: "int option \<Rightarrow> pollingConn \<Rightarrow> (goerr option \<times> pollingConn) list" where
  "Polling_SetReadDeadline t c =
     go_select_default
       [(pclosed c, (Some ErrPollingConnClosed, c)), (paused c, (Some ErrPollingConnPaused, c))]
       (None, c\<lparr>readDeadline := t\<rparr>)"

definition Polling_SetWriteDeadline :: "int option \<Rightarrow> pollingConn \<Rightarrow> (goerr option \<times> pollingConn) list" where
  "Polling_SetWriteDeadline t c =
     go_select_default
       [(pclosed c, (Some ErrPollingConnClosed, c)), (paused c, (Some ErrPollingConnPaused, c))]
       (None, c\<lparr>writeDeadline := t\<rparr>)"

text \<open>Closing the pause channel a second time panics; \<open>Resume\<close> puts a new one in its place.\<close>

definition Pause :: "pollingConn \<Rightarrow> pollingConn outcome" where
  "Pause c = (if paused c then Panic else Ret (c\<lparr>paused := True\<rparr>))"

definition Resume :: "pollingConn \<Rightarrow> pollingConn" where
  "Resume c = c\<lparr>paused := False\<rparr>"

section \<open>HTTP\<close>

text \<open>
  A response as the peer sees it: \<open>WriteHeader\<close> fixes status and headers, and header changes
  after it have no effect.
\<close>

record response =
  status :: "nat option"
  content_type :: "string option"
  body :: bytes

definition new_response :: response where
  "new_response = \<lparr>status = None, content_type = None, body = []\<rparr>"

definition WriteHeader :: "nat \<Rightarrow> response \<Rightarrow> response" where
  "WriteHeader n w = (if status w = None then w\<lparr>status := Some n\<rparr> else w)"

definition set_content_type :: "string \<Rightarrow> response \<Rightarrow> response" where
  "set_content_type t w = (if status w = None then w\<lparr>content_type := Some t\<rparr> else w)"

definition write_body :: "bytes \<Rightarrow> response \<Rightarrow> response" where
  "write_body b w = (let w = WriteHeader 200 w in w\<lparr>body := body w @ b\<rparr>)"

definition http_Error :: "string \<Rightarrow> nat \<Rightarrow> response \<Rightarrow> response" where
  "http_Error msg code w =
     write_body (asc msg @ [0x0A]) (WriteHeader code (set_content_type ''text/plain; charset=utf-8'' w))"

text \<open>The bytes that \<open>WriteTo\<close> gives a buffer.\<close>

definition rendered :: "(writer \<Rightarrow> (nat \<times> goerr option \<times> writer) outcome) \<Rightarrow> bytes outcome" where
  "rendered wt = (case wt new_buffer of Panic \<Rightarrow> Panic | Ret (_, _, w) \<Rightarrow> Ret (written w))"

definition writeJSONP :: "bytes \<Rightarrow> eioPacket \<Rightarrow> response \<Rightarrow> response outcome" where
  "writeJSONP jsonp p w =
     (let w = set_content_type ''text/javascript; charset=UTF-8'' w in
      case rendered (Packet_WriteTo p) of
        Panic \<Rightarrow> Panic
      | Ret s \<Rightarrow>
          (case json_encode (GStr s) of
             Inl _ \<Rightarrow> Ret w
           | Inr x \<Rightarrow> Ret (write_body (asc ''___eio['' @ jsonp @ asc ''](\"'' @ x @ asc ''\");'') w)))"

definition writeXHR :: "eioPacket \<Rightarrow> response \<Rightarrow> response outcome" where
  "writeXHR p w =
     (let w = set_content_type ''text/plain; charset=UTF-8'' w in
      case rendered (Packet_WriteTo p) of Panic \<Rightarrow> Panic | Ret s \<Rightarrow> Ret (write_body s w))"

definition writeXHR2 :: "eioPacket \<Rightarrow> response \<Rightarrow> response outcome" where
  "writeXHR2 p w =
     (let w = set_content_type ''application/octet-stream'' w in
      case rendered (packet2_WriteTo p) of Panic \<Rightarrow> Panic | Ret s \<Rightarrow> Ret (write_body s w))"

text \<open>
  A request: the query values, what \<open>mime.ParseMediaType\<close> gives for its content type (with the
  lower-cased charset), and the segments in which its body arrives.
\<close>

datatype media = MediaError string | Media string string

record request =
  req_method :: string
  q_b64 :: bytes
  q_jsonp :: bytes
  req_media :: media
  req_body :: reader

text \<open>The GET branch: each outcome of \<open>ReadPacketOut\<close> and the response it leads to.\<close>

definition get_response :: "(goerr \<Rightarrow> string) \<Rightarrow> request \<Rightarrow> goerr + eioPacket \<Rightarrow> response outcome" where
  "get_response err_text r x =
     (case x of
        Inl e \<Rightarrow> Ret (http_Error (err_text e) 404 new_response)
      | Inr p \<Rightarrow>
          let w = WriteHeader 200 new_response in
          if q_jsonp r \<noteq> [] then writeJSONP (q_jsonp r) p w
          else if q_b64 r = asc ''1'' then writeXHR p w
          else writeXHR2 p w)"

definition Polling_GET :: "(goerr \<Rightarrow> string) \<Rightarrow> bool \<Rightarrow> request \<Rightarrow> pollingConn \<Rightarrow> (response outcome \<times> pollingConn) list" where
  "Polling_GET err_text ctx_done r c = map (\<lambda>(x, c'). (get_response err_text r x, c')) (ReadPacketOut ctx_done c)"

text \<open>The POST branch up to the loop: the packets to push, or the response.\<close>

definition post_packets :: "(goerr \<Rightarrow> string) \<Rightarrow> request \<Rightarrow> (response + eioPacket list) outcome" where
  "post_packets err_text r =
     (case req_media r of
        MediaError e \<Rightarrow> Ret (Inl (http_Error e 400 new_response))
      | Media t cs \<Rightarrow>
          if t \<noteq> ''application/octet-stream'' \<and> t \<noteq> ''text/plain''
            then Ret (Inl (http_Error ''invalid media type'' 400 new_response))
          else if t = ''text/plain'' \<and> cs \<noteq> ''utf-8''
            then Ret (Inl (http_Error ''invalid charset'' 400 new_response))
          else (case Payload_ReadFrom \<lparr>packets = [], xhr2 = (t = ''application/octet-stream'')\<rparr> (req_body r) of
             Panic \<Rightarrow> Panic
           | Ret (_, Some e, _, _) \<Rightarrow> Ret (Inl (http_Error (err_text e) 500 new_response))
           | Ret (_, None, pl, _) \<Rightarrow> Ret (Inr (packets pl))))"

text \<open>
  One turn of the loop over the packets still to push: the next \<open>select\<close>, or the final
  response.
\<close>

definition post_turn :: "eioPacket list \<Rightarrow> pollingConn \<Rightarrow> ((response + eioPacket list) \<times> pollingConn) list" where
  "post_turn ps c =
     (case ps of
        [] \<Rightarrow> [(Inl (http_Error ''OK'' 200 new_response), c)]
      | p # ps' \<Rightarrow>
          go_select
            [(pclosed c, (Inl (http_Error ''closed'' 404 new_response), c)),
             (length (inq c) < bufSize c, (Inr ps', c\<lparr>inq := inq c @ [p]\<rparr>))])"

text \<open>
  The whole handler up to the loop of POST: the response, or the packets that the loop still has
  to push.
\<close>

definition Polling_ServeHTTP ::
  "(goerr \<Rightarrow> string) \<Rightarrow> bool \<Rightarrow> request \<Rightarrow> pollingConn \<Rightarrow> ((response outcome + eioPacket list) \<times> pollingConn) list" where
  "Polling_ServeHTTP err_text ctx_done r c =
     (if pclosed c then [(Inl (Ret (http_Error (err_text ErrPollingConnClosed) 400 new_response)), c)]
      else if req_method r = ''GET'' then map (apfst Inl) (Polling_GET err_text ctx_done r c)
      else if req_method r = ''POST'' then
        (case post_packets err_text r of
           Panic \<Rightarrow> [(Inl Panic, c)]
         | Ret (Inl w) \<Rightarrow> [(Inl (Ret w), c)]
         | Ret (Inr ps) \<Rightarrow> [(Inr ps, c)])
      else [(Inl (Ret (http_Error ''error'' 405 new_response)), c)])"

section \<open>The connection in use\<close>

text \<open>
  The reading and writing goroutines of the engine, GET and POST handlers, and the operations
  of an upgrade on one connection. \<open>posts\<close> are the packets that running POST handlers still
  have to push; the histories are the packets pushed into and taken from each channel. A flush
  is one step, or a step for each of its receives with others in between.
\<close>

record polling_sys =
  conn :: pollingConn
  posts :: "eioPacket list list"
  in_acc :: "eioPacket list"
  in_read :: "eioPacket list"
  out_acc :: "eioPacket list"
  out_sent :: "eioPacket list"

definition new_sys :: "nat \<Rightarrow> polling_sys" where
  "new_sys n = \<lparr>conn = plain_conn n, posts = [], in_acc = [], in_read = [], out_acc = [], out_sent = []\<rparr>"

text \<open>A poll of a paused connection may get a noop packet that was never queued; every other packet counts.\<close>

definition pause_noop :: "eioPacket \<Rightarrow> pollingConn \<Rightarrow> pollingConn \<Rightarrow> bool" where
  "pause_noop p c c' \<longleftrightarrow> paused c \<and> p = noop_packet \<and> outq c' = outq c"

inductive polling_step :: "polling_sys \<Rightarrow> polling_sys \<Rightarrow> bool" where
  reads: "(Inr p, c) \<in> set (Polling_ReadPacket now fired (conn s)) \<Longrightarrow>
    polling_step s (s\<lparr>conn := c, in_read := in_read s @ [p]\<rparr>)"
| writes: "(None, c) \<in> set (Polling_WritePacket now fired p (conn s)) \<Longrightarrow>
    polling_step s (s\<lparr>conn := c, out_acc := out_acc s @ [p]\<rparr>)"
| polls: "(Inr p, c) \<in> set (ReadPacketOut ctx (conn s)) \<Longrightarrow>
    polling_step s (s\<lparr>conn := c, out_sent := out_sent s @ (if pause_noop p (conn s) c then [] else [p])\<rparr>)"
| post_start: "post_packets et r = Ret (Inr ps) \<Longrightarrow> polling_step s (s\<lparr>posts := posts s @ [ps]\<rparr>)"
| post_push: "i < length (posts s) \<Longrightarrow> (Inr ps, c) \<in> set (post_turn (posts s ! i) (conn s)) \<Longrightarrow>
    polling_step s (s\<lparr>conn := c, posts := (posts s)[i := ps], in_acc := in_acc s @ [hd (posts s ! i)]\<rparr>)"
| set_rd: "(r, c) \<in> set (Polling_SetReadDeadline t (conn s)) \<Longrightarrow> polling_step s (s\<lparr>conn := c\<rparr>)"
| set_wd: "(r, c) \<in> set (Polling_SetWriteDeadline t (conn s)) \<Longrightarrow> polling_step s (s\<lparr>conn := c\<rparr>)"
| pause: "Pause (conn s) = Ret c \<Longrightarrow> polling_step s (s\<lparr>conn := c\<rparr>)"
| resume: "polling_step s (s\<lparr>conn := Resume (conn s)\<rparr>)"
| closes: "polling_step s (s\<lparr>conn := Polling_Close (conn s)\<rparr>)"
| flush_out: "FlushOut (conn s) = (ps, c) \<Longrightarrow>
    polling_step s (s\<lparr>conn := c, out_sent := out_sent s @ ps\<rparr>)"
| flush_out_one: "outq (conn s) = p # ps \<Longrightarrow>
    polling_step s (s\<lparr>conn := (conn s)\<lparr>outq := ps\<rparr>, out_sent := out_sent s @ [p]\<rparr>)"
| flush_in_one: "inq (conn s) = p # ps \<Longrightarrow>
    polling_step s (s\<lparr>conn := (conn s)\<lparr>inq := ps\<rparr>, in_read := in_read s @ [p]\<rparr>)"
| flush_in: "FlushIn (conn s) = (ps, c) \<Longrightarrow>
    polling_step s (s\<lparr>conn := c, in_read := in_read s @ ps\<rparr>)"

lemma ReadPacketOut_frame:
  "(r, c') \<in> set (ReadPacketOut ctx c) \<Longrightarrow>
   inq c' = inq c \<and> bufSize c' = bufSize c \<and> length (outq c') \<le> length (outq c)"
  by (auto simp: ReadPacketOut_def split: if_splits)

lemmas polling_ops = Polling_ReadPacket_def Polling_WritePacket_def post_turn_def
  Polling_SetReadDeadline_def Polling_SetWriteDeadline_def Pause_def Resume_def Polling_Close_def
  FlushOut_def FlushIn_def go_select_default_def

interpretation inF: fifo polling_step "\<lambda>s. \<exists>n. s = new_sys n" in_acc in_read "\<lambda>s. inq (conn s)"
proof
  fix s assume "\<exists>n. s = new_sys n"
  then show "in_acc s = in_read s @ inq (conn s)" by (auto simp: new_sys_def newPollingConn_def)
next
  fix s s' assume "polling_step s s'"
  then show "(\<exists>xs. in_acc s' = in_acc s @ xs \<and> inq (conn s') = inq (conn s) @ xs \<and> in_read s' = in_read s) \<or>
     (\<exists>xs. inq (conn s) = xs @ inq (conn s') \<and> in_read s' = in_read s @ xs \<and> in_acc s' = in_acc s)"
    by cases (auto simp: polling_ops dest: ReadPacketOut_frame split: if_splits option.splits list.splits)
qed

interpretation outF: fifo polling_step "\<lambda>s. \<exists>n. s = new_sys n" out_acc out_sent "\<lambda>s. outq (conn s)"
proof
  fix s assume "\<exists>n. s = new_sys n"
  then show "out_acc s = out_sent s @ outq (conn s)" by (auto simp: new_sys_def newPollingConn_def)
next
  fix s s' assume "polling_step s s'"
  then show "(\<exists>xs. out_acc s' = out_acc s @ xs \<and> outq (conn s') = outq (conn s) @ xs \<and> out_sent s' = out_sent s) \<or>
     (\<exists>xs. outq (conn s) = xs @ outq (conn s') \<and> out_sent s' = out_sent s @ xs \<and> out_acc s' = out_acc s)"
    by cases (auto simp: polling_ops ReadPacketOut_def pause_noop_def split: if_splits option.splits list.splits)
qed

lemma polling_bounded:
  "polling_step\<^sup>*\<^sup>* (new_sys n) s \<Longrightarrow>
   bufSize (conn s) = n \<and> length (inq (conn s)) \<le> n \<and> length (outq (conn s)) \<le> n"
proof (induction rule: rtranclp_induct)
  case base
  then show ?case by (simp add: new_sys_def newPollingConn_def)
next
  case (step s t)
  from step.hyps(2) step.IH show ?case
    by cases (auto simp: polling_ops dest: ReadPacketOut_frame split: if_splits option.splits list.splits)
qed

section \<open>Responses\<close>

lemma rendered_text: "text_ok p \<Longrightarrow> rendered (Packet_WriteTo p) = Ret (text_frame p)"
  by (simp add: rendered_def Packet_WriteTo_buffer new_buffer_def)

lemma rendered_xhr2: "rendered (packet2_WriteTo p) = Ret (xhr2_frame p)"
  by (simp add: rendered_def packet2_WriteTo_buffer new_buffer_def)

lemma read_one_frame:
  "xhr2_ok p \<Longrightarrow> Payload_ReadFrom \<lparr>packets = [], xhr2 = True\<rparr> [xhr2_frame p] =
     Ret (of_nat (length (xhr2_frame p)), None, \<lparr>packets = [p], xhr2 = True\<rparr>, [])"
  "text_ok p \<Longrightarrow> Payload_ReadFrom \<lparr>packets = [], xhr2 = False\<rparr> [text_frame p] =
     Ret (of_nat (length (text_frame p)), None, \<lparr>packets = [text_seen p], xhr2 = False\<rparr>, [])"
  using xhr2F.loop_frames [of "[p]" "[]" 0] textF.loop_frames [of "[p]" "[]" 0]
  by (simp_all add: Payload_ReadFrom_def)

lemma Polling_GET_packet:
  assumes "outq c = p # q" and "\<not> pclosed c" and "\<not> paused c"
  shows "Polling_GET et False r c = [(get_response et r (Inr p), c\<lparr>outq := q\<rparr>)]"
  using assms by (simp add: Polling_GET_def ReadPacketOut_def go_select_def)

text \<open>A turn of a POST handler that has one possible outcome.\<close>

definition post_step ::
  "(response + eioPacket list) \<times> pollingConn \<Rightarrow> (response + eioPacket list) \<times> pollingConn \<Rightarrow> bool" where
  "post_step a b \<longleftrightarrow> (\<exists>qs. fst a = Inr qs \<and> post_turn qs (snd a) = [b])"

lemma post_handler_alone:
  "\<not> pclosed c \<Longrightarrow> length (inq c) + length ps \<le> bufSize c \<Longrightarrow>
   post_step\<^sup>*\<^sup>* (Inr ps, c) (Inl (http_Error ''OK'' 200 new_response), c\<lparr>inq := inq c @ ps\<rparr>)"
proof (induction ps arbitrary: c)
  case Nil
  then show ?case by (intro r_into_rtranclp) (simp add: post_step_def post_turn_def)
next
  case (Cons p ps)
  let ?c = "c\<lparr>inq := inq c @ [p]\<rparr>"
  have "post_step (Inr (p # ps), c) (Inr ps, ?c)"
    using Cons.prems by (simp add: post_step_def post_turn_def go_select_def)
  moreover have "post_step\<^sup>*\<^sup>* (Inr ps, ?c) (Inl (http_Error ''OK'' 200 new_response), ?c\<lparr>inq := inq ?c @ ps\<rparr>)"
    using Cons.prems by (intro Cons.IH) simp_all
  ultimately show ?case by (simp add: converse_rtranclp_into_rtranclp)
qed

section \<open>Properties\<close>

text \<open>
  C8. A polling connection keeps packets in order in both directions, under every interleaving
  of readers, writers, polls, posts, pauses, flushes and close: what was pushed is what was
  taken followed by what the channel holds, and neither channel exceeds its capacity. The noop
  packets that polls of a paused connection get were never pushed and are left out.
\<close>
theorem polling_fifo:
  assumes "polling_step\<^sup>*\<^sup>* (new_sys n) s"
  shows "in_acc s = in_read s @ inq (conn s) \<and> out_acc s = out_sent s @ outq (conn s) \<and>
    length (inq (conn s)) \<le> n \<and> length (outq (conn s)) \<le> n"
  using inF.history [OF _ assms] outF.history [OF _ assms] polling_bounded [OF assms] by auto

definition demo_packet :: eioPacket where
  "demo_packet = \<lparr>msgType = 0, pktType = 4, data = [1]\<rparr>"

text \<open>Two packets written, and a poll that gets the first of them.\<close>
theorem polling_fifo_witness:
  "\<exists>s. polling_step\<^sup>*\<^sup>* (new_sys 8) s \<and> out_acc s = [noop_packet, demo_packet] \<and> out_sent s = [noop_packet] \<and>
    outq (conn s) = [demo_packet] \<and> out_acc s = out_sent s @ outq (conn s) \<and>
    length (inq (conn s)) \<le> 8 \<and> length (outq (conn s)) \<le> 8"
proof -
  let ?c = "(plain_conn 8)\<lparr>outq := [noop_packet]\<rparr>"
  let ?d = "(plain_conn 8)\<lparr>outq := [noop_packet, demo_packet]\<rparr>"
  let ?e = "(plain_conn 8)\<lparr>outq := [demo_packet]\<rparr>"
  let ?s1 = "(new_sys 8)\<lparr>conn := ?c, out_acc := out_acc (new_sys 8) @ [noop_packet]\<rparr>"
  let ?s2 = "?s1\<lparr>conn := ?d, out_acc := out_acc ?s1 @ [demo_packet]\<rparr>"
  let ?s3 = "?s2\<lparr>conn := ?e, out_sent := out_sent ?s2 @ (if pause_noop noop_packet (conn ?s2) ?e then [] else [noop_packet])\<rparr>"
  have "polling_step (new_sys 8) ?s1"
    by (rule polling_step.writes [where now = 0 and fired = False])
       (simp add: new_sys_def newPollingConn_def Polling_WritePacket_def)
  moreover have "polling_step ?s1 ?s2"
    by (rule polling_step.writes [where now = 0 and fired = False])
       (simp add: new_sys_def newPollingConn_def Polling_WritePacket_def)
  moreover have "polling_step ?s2 ?s3"
    by (rule polling_step.polls [where ctx = False])
       (simp add: new_sys_def newPollingConn_def ReadPacketOut_def)
  ultimately have r: "polling_step\<^sup>*\<^sup>* (new_sys 8) ?s3"
    by (meson converse_rtranclp_into_rtranclp rtranclp.rtrancl_refl)
  have "out_acc ?s3 = [noop_packet, demo_packet] \<and> out_sent ?s3 = [noop_packet] \<and> outq (conn ?s3) = [demo_packet]"
    by (simp add: pause_noop_def new_sys_def newPollingConn_def)
  with r polling_fifo [OF r] show ?thesis by blast
qed

text \<open>
  C25. A poll without JSONP, on an open connection that is not paused, takes the oldest queued
  packet: GET answers 200 with a body from which the payload reader of the same mode recovers the
  packet, exactly in the XHR2 mode, and as the text framing shows it with \<open>b64=1\<close>, where binary data
  has at most 768 bytes and comes back padded to a multiple of three.
\<close>
theorem poll_delivers:
  assumes "outq c = p # q" and "\<not> pclosed c" and "\<not> paused c" and "q_jsonp r = []"
    and "if q_b64 r = asc ''1'' then text_ok p else xhr2_ok p"
  shows "\<exists>w n. Polling_GET et False r c = [(Ret w, c\<lparr>outq := q\<rparr>)] \<and> status w = Some 200 \<and>
    Payload_ReadFrom \<lparr>packets = [], xhr2 = (q_b64 r \<noteq> asc ''1'')\<rparr> [body w] =
      Ret (n, None, \<lparr>packets = [if q_b64 r = asc ''1'' then text_seen p else p],
                    xhr2 = (q_b64 r \<noteq> asc ''1'')\<rparr>, [])"
  using assms read_one_frame [of p]
  by (cases "q_b64 r = asc ''1''")
     (simp_all add: Polling_GET_packet get_response_def writeXHR_def writeXHR2_def rendered_text rendered_xhr2
       write_body_def WriteHeader_def set_content_type_def new_response_def Let_def)

definition demo_get :: "bytes \<Rightarrow> bytes \<Rightarrow> request" where
  "demo_get b64 j = \<lparr>req_method = ''GET'', q_b64 = b64, q_jsonp = j, req_media = MediaError [], req_body = []\<rparr>"

text \<open>A binary packet in the XHR2 mode.\<close>
theorem poll_delivers_witness:
  "\<exists>w n. Polling_GET (\<lambda>_. []) False (demo_get [] [])
      ((plain_conn 8)\<lparr>outq := [\<lparr>msgType = 1, pktType = 4, data = [1, 2]\<rparr>]\<rparr>) = [(Ret w, plain_conn 8)] \<and>
    status w = Some 200 \<and>
    Payload_ReadFrom \<lparr>packets = [], xhr2 = True\<rparr> [body w] =
      Ret (n, None, \<lparr>packets = [\<lparr>msgType = 1, pktType = 4, data = [1, 2]\<rparr>], xhr2 = True\<rparr>, [])"
  using poll_delivers [of "(plain_conn 8)\<lparr>outq := [\<lparr>msgType = 1, pktType = 4, data = [1, 2]\<rparr>]\<rparr>"
      "\<lparr>msgType = 1, pktType = 4, data = [1, 2]\<rparr>" "[]" "demo_get [] []" "\<lambda>_. []"]
  by (simp add: newPollingConn_def demo_get_def asc_def xhr2_ok_def max_alloc_def)

text \<open>
  C26. A POST whose body, read in one segment, is a payload in the framing that its media type
  selects (octet-stream: XHR2; UTF-8 text: the text framing, binary data up to 768 bytes) is
  accepted. Its handler, running alone on an open connection with room for all packets, pushes
  exactly those packets in order behind what the channel holds (in the text framing, as the reader
  shows them) and ends with status 200.
\<close>
theorem post_pushes:
  assumes "req_media r = Media t cs"
    and "t = ''application/octet-stream'' \<and> seen = (\<lambda>p. p) \<and> frame = xhr2_frame \<and> ok = xhr2_ok \<or>
      t = ''text/plain'' \<and> cs = ''utf-8'' \<and> seen = text_seen \<and> frame = text_frame \<and> ok = text_ok"
    and "\<forall>p \<in> set ps. ok p" and "req_body r = [concat (map frame ps)]"
    and "\<not> pclosed c" and "length (inq c) + length ps \<le> bufSize c"
  shows "post_packets et r = Ret (Inr (map seen ps)) \<and>
    post_step\<^sup>*\<^sup>*
      (Inr (map seen ps), c) (Inl (http_Error ''OK'' 200 new_response), c\<lparr>inq := inq c @ map seen ps\<rparr>)"
proof
  show "post_packets et r = Ret (Inr (map seen ps))"
    using assms(1-4) xhr2F.loop_frames [of ps "[]" 0] textF.loop_frames [of ps "[]" 0]
    by (auto simp: post_packets_def Payload_ReadFrom_def)
  show "post_step\<^sup>*\<^sup>*
      (Inr (map seen ps), c) (Inl (http_Error ''OK'' 200 new_response), c\<lparr>inq := inq c @ map seen ps\<rparr>)"
    using post_handler_alone [of c "map seen ps"] assms(5,6) by simp
qed

definition demo_post :: "string \<Rightarrow> string \<Rightarrow> bytes \<Rightarrow> request" where
  "demo_post t cs b = \<lparr>req_method = ''POST'', q_b64 = [], q_jsonp = [], req_media = Media t cs, req_body = [b]\<rparr>"

text \<open>A POST of one packet in either framing.\<close>
theorem post_pushes_witness:
  "post_packets (\<lambda>_. []) (demo_post ''application/octet-stream'' [] (xhr2_frame noop_packet)) = Ret (Inr [noop_packet]) \<and>
   post_packets (\<lambda>_. []) (demo_post ''text/plain'' ''utf-8'' (text_frame noop_packet)) = Ret (Inr [text_seen noop_packet]) \<and>
   post_step\<^sup>*\<^sup>*
      (Inr [noop_packet], plain_conn 8)
      (Inl (http_Error ''OK'' 200 new_response), (plain_conn 8)\<lparr>inq := [noop_packet]\<rparr>)"
  using post_pushes [of "demo_post ''application/octet-stream'' [] (xhr2_frame noop_packet)" "''application/octet-stream''"
      "[]" "\<lambda>p. p" xhr2_frame xhr2_ok "[noop_packet]" "plain_conn 8" "\<lambda>_. []"]
    post_pushes [of "demo_post ''text/plain'' ''utf-8'' (text_frame noop_packet)" "''text/plain''"
      "''utf-8''" text_seen text_frame text_ok "[noop_packet]" "plain_conn 8" "\<lambda>_. []"]
  by (simp add: demo_post_def noop_packet_def xhr2_ok_def text_ok_def newPollingConn_def)

text \<open>
  After \<open>Close\<close> a connection that is not paused refuses everything: reads, writes, polls and
  deadlines fail with \<open>ErrPollingConnClosed\<close>, at once and without touching the queues, and a
  request is answered with status 400.
\<close>
theorem closed_conn_refuses:
  assumes "\<not> paused c"
  shows "let d = Polling_Close c in
    Polling_ReadPacket now fired d = [(Inl ErrPollingConnClosed, d)] \<and>
    Polling_WritePacket now fired p d = [(Some ErrPollingConnClosed, d)] \<and>
    ReadPacketOut ctx d = [(Inl ErrPollingConnClosed, d)] \<and>
    Polling_SetReadDeadline t d = [(Some ErrPollingConnClosed, d)] \<and>
    Polling_SetWriteDeadline t d = [(Some ErrPollingConnClosed, d)] \<and>
    Polling_ServeHTTP et ctx r d = [(Inl (Ret (http_Error (et ErrPollingConnClosed) 400 new_response)), d)]"
  using assms
  by (simp add: Let_def polling_ops ReadPacketOut_def go_select_def Polling_ServeHTTP_def)

text \<open>A fresh connection.\<close>
theorem closed_conn_refuses_witness:
  "Polling_WritePacket 0 False noop_packet (Polling_Close (plain_conn 8)) =
     [(Some ErrPollingConnClosed, Polling_Close (plain_conn 8))]"
  using closed_conn_refuses [of "plain_conn 8" 0 False noop_packet False None "\<lambda>_. []" "demo_get [] []"]
  by (simp add: Let_def newPollingConn_def)

text \<open>
  The content type of a polled packet is never sent: the handler calls \<open>WriteHeader\<close> before
  the writers set it, and headers set afterwards have no effect.
\<close>
theorem poll_content_type_lost:
  assumes "get_response et r (Inr p) = Ret w"
  shows "status w = Some 200 \<and> content_type w = None"
  using assms
  by (auto simp: get_response_def writeJSONP_def writeXHR_def writeXHR2_def write_body_def WriteHeader_def
      set_content_type_def new_response_def Let_def split: outcome.splits sum.splits if_splits)

text \<open>The XHR2 mode.\<close>
theorem poll_content_type_lost_witness:
  "\<exists>w. get_response (\<lambda>_. []) (demo_get [] []) (Inr noop_packet) = Ret w \<and> status w = Some 200 \<and>
     content_type w = None"
proof -
  obtain w where w: "get_response (\<lambda>_. []) (demo_get [] []) (Inr noop_packet) = Ret w"
    by (simp add: get_response_def demo_get_def writeXHR2_def rendered_xhr2 asc_def)
  then show ?thesis using poll_content_type_lost [OF w] by blast
qed

text \<open>
  A JSONP response quotes the payload twice: the text is already a JSON string with its own
  quotes and newline when it is put between quotes, so the argument of the script call is an
  empty string followed by the payload's characters.
\<close>
theorem jsonp_quoted_twice:
  assumes "text_ok p" and "q_jsonp r \<noteq> []"
  shows "\<exists>w. get_response et r (Inr p) = Ret w \<and>
    body w = asc ''___eio['' @ q_jsonp r @ asc ''](\"\"'' @ json_esc (text_frame p) @ [0x22, 0x0A] @ asc ''\");''"
  using assms
  by (simp add: get_response_def writeJSONP_def rendered_text json_encode_def json_string_def write_body_def
      WriteHeader_def set_content_type_def new_response_def asc_def Let_def)

text \<open>A noop packet polled with \<open>j=0\<close>.\<close>
theorem jsonp_quoted_twice_witness:
  "\<exists>w. get_response (\<lambda>_. []) (demo_get [] (asc ''0'')) (Inr noop_packet) = Ret w \<and>
    body w = asc ''___eio[0](\"\"1:6\"'' @ [0x0A] @ asc ''\");''"
proof -
  have f: "json_esc (text_frame noop_packet) = asc ''1:6''"
    by (simp add: text_frame_def noop_packet_def dec_def dec_digits.simps asc_def esc1_def)
  show ?thesis
    using jsonp_quoted_twice [of noop_packet "demo_get [] (asc ''0'')" "\<lambda>_. []"] f
    by (simp add: demo_get_def noop_packet_def text_ok_def asc_def)
qed

end
