(* ===== verification/Engine_Websocket.thy ===== *)
theory Engine_Websocket
  imports Engine_Polling
begin

text \<open>
  \<open>engine/websocket.go\<close> and the interface \<open>Conn\<close> of \<open>engine/transport.go\<close>. The websocket library
  is a parameter, a record of the operations that the source calls on a \<open>websocket.Conn\<close>:
  \<open>NextReader\<close> gives the type and the content of the next message, and the error that ends the
  content early if there is one; a connection has one writer at a time, so \<open>Write\<close> and \<open>Close\<close> of
  the writer are operations of the connection.
\<close>

section \<open>Websocket connections\<close>

abbreviation (input) TextMessage :: int where "TextMessage \<equiv> 1"
abbreviation (input) BinaryMessage :: int where "BinaryMessage \<equiv> 2"

record 'c wslib =
  NextReader :: "'c \<Rightarrow> (goerr + (int \<times> bytes \<times> goerr option)) \<times> 'c"
  NextWriter :: "int \<Rightarrow> 'c \<Rightarrow> goerr option \<times> 'c"
  writer_Write :: "bytes \<Rightarrow> 'c \<Rightarrow> goerr option \<times> 'c"
  writer_Close :: "'c \<Rightarrow> goerr option \<times> 'c"
  ws_Close :: "'c \<Rightarrow> goerr option \<times> 'c"
  ws_SetReadDeadline :: "int \<Rightarrow> 'c \<Rightarrow> goerr option \<times> 'c"
  ws_SetWriteDeadline :: "int \<Rightarrow> 'c \<Rightarrow> goerr option \<times> 'c"

record 'c websocketConn =
  wconn :: 'c
  wheader :: http_header

definition nextWriter :: "'c wslib \<Rightarrow> byte \<Rightarrow> byte \<Rightarrow> 'c \<Rightarrow> goerr option \<times> 'c" where
  "nextWriter W mt pt c =
     (if mt \<noteq> MessageTypeString \<and> mt \<noteq> MessageTypeBinary then (Some ErrInvalidPayload, c)
      else let m = (if mt = MessageTypeString then TextMessage else BinaryMessage) in
        (case NextWriter W m c of
           (Some e, c1) \<Rightarrow> (Some e, c1)
         | (None, c1) \<Rightarrow>
             let b = (if mt = MessageTypeString then pt + 0x30 else pt) in
             (case writer_Write W [b] c1 of
                (Some e, c2) \<Rightarrow> (Some e, snd (writer_Close W c2))
              | (None, c2) \<Rightarrow> (None, c2))))"

definition Ws_WritePacket :: "'c wslib \<Rightarrow> eioPacket \<Rightarrow> 'c \<Rightarrow> goerr option \<times> 'c" where
  "Ws_WritePacket W p c =
     (case nextWriter W (msgType p) (pktType p) c of
        (Some e, c1) \<Rightarrow> (Some e, c1)
      | (None, c1) \<Rightarrow>
          if length (data p) > 0 then
            (case writer_Write W (data p) c1 of
               (Some e, c2) \<Rightarrow> (Some e, snd (writer_Close W c2))
             | (None, c2) \<Rightarrow> writer_Close W c2)
          else writer_Close W c1)"

definition Ws_ReadPacket :: "'c wslib \<Rightarrow> 'c \<Rightarrow> (goerr + eioPacket) \<times> 'c" where
  "Ws_ReadPacket W c =
     (case NextReader W c of
        (Inl e, c') \<Rightarrow> (Inl e, c')
      | (Inr (m, [], err), c') \<Rightarrow> (Inl (case err of None \<Rightarrow> EOF | Some e \<Rightarrow> e), c')
      | (Inr (m, b # d, err), c') \<Rightarrow>
          let p = (if m = TextMessage
                     then Some \<lparr>msgType = MessageTypeString, pktType = b - 0x30, data = d\<rparr>
                   else if m = BinaryMessage
                     then Some \<lparr>msgType = MessageTypeBinary, pktType = b, data = d\<rparr>
                   else None)
          in (case p of
                None \<Rightarrow> (Inl ErrInvalidPayload, c')
              | Some q \<Rightarrow> (case err of Some e \<Rightarrow> (Inl e, c') | None \<Rightarrow> (Inr q, c'))))"

section \<open>Connections\<close>

text \<open>
  The implementations of \<open>Conn\<close>. Polling operations give the outcomes they may commit to, where a
  timer may fire before a \<open>select\<close> commits; those of a websocket have one outcome.
\<close>

datatype 'c Conn = PollConn pollingConn | WsConn "'c websocketConn"

fun conn_ReadPacket :: "'c wslib \<Rightarrow> int \<Rightarrow> 'c Conn \<Rightarrow> ((goerr + eioPacket) \<times> 'c Conn) list" where
  "conn_ReadPacket W now (PollConn c) = map (apsnd PollConn) (Polling_ReadPacket now True c)"
| "conn_ReadPacket W now (WsConn w) =
     (case Ws_ReadPacket W (wconn w) of (r, c) \<Rightarrow> [(r, WsConn (w\<lparr>wconn := c\<rparr>))])"

fun conn_WritePacket :: "'c wslib \<Rightarrow> int \<Rightarrow> eioPacket \<Rightarrow> 'c Conn \<Rightarrow> (goerr option \<times> 'c Conn) list" where
  "conn_WritePacket W now p (PollConn c) = map (apsnd PollConn) (Polling_WritePacket now True p c)"
| "conn_WritePacket W now p (WsConn w) =
     (case Ws_WritePacket W p (wconn w) of (e, c) \<Rightarrow> [(e, WsConn (w\<lparr>wconn := c\<rparr>))])"

fun conn_SetReadDeadline :: "'c wslib \<Rightarrow> int \<Rightarrow> 'c Conn \<Rightarrow> (goerr option \<times> 'c Conn) list" where
  "conn_SetReadDeadline W t (PollConn c) = map (apsnd PollConn) (Polling_SetReadDeadline (Some t) c)"
| "conn_SetReadDeadline W t (WsConn w) =
     (case ws_SetReadDeadline W t (wconn w) of (e, c) \<Rightarrow> [(e, WsConn (w\<lparr>wconn := c\<rparr>))])"

fun conn_SetWriteDeadline :: "'c wslib \<Rightarrow> int \<Rightarrow> 'c Conn \<Rightarrow> (goerr option \<times> 'c Conn) list" where
  "conn_SetWriteDeadline W t (PollConn c) = map (apsnd PollConn) (Polling_SetWriteDeadline (Some t) c)"
| "conn_SetWriteDeadline W t (WsConn w) =
     (case ws_SetWriteDeadline W t (wconn w) of (e, c) \<Rightarrow> [(e, WsConn (w\<lparr>wconn := c\<rparr>))])"

fun conn_Close :: "'c wslib \<Rightarrow> 'c Conn \<Rightarrow> goerr option \<times> 'c Conn" where
  "conn_Close W (PollConn c) = (None, PollConn (Polling_Close c))"
| "conn_Close W (WsConn w) = (case ws_Close W (wconn w) of (e, c) \<Rightarrow> (e, WsConn (w\<lparr>wconn := c\<rparr>)))"

fun conn_Pause :: "'c Conn \<Rightarrow> (goerr option \<times> 'c Conn) outcome" where
  "conn_Pause (PollConn c) = (case Pause c of Panic \<Rightarrow> Panic | Ret c' \<Rightarrow> Ret (None, PollConn c'))"
| "conn_Pause (WsConn w) = Ret (Some ErrPauseNotSupported, WsConn w)"

fun conn_Resume :: "'c Conn \<Rightarrow> 'c Conn" where
  "conn_Resume (PollConn c) = PollConn (Resume c)"
| "conn_Resume (WsConn w) = WsConn w"

fun conn_FlushOut :: "'c Conn \<Rightarrow> eioPacket list \<times> 'c Conn" where
  "conn_FlushOut (PollConn c) = apsnd PollConn (FlushOut c)"
| "conn_FlushOut (WsConn w) = ([], WsConn w)"

fun conn_FlushIn :: "'c Conn \<Rightarrow> eioPacket list \<times> 'c Conn" where
  "conn_FlushIn (PollConn c) = apsnd PollConn (FlushIn c)"
| "conn_FlushIn (WsConn w) = ([], WsConn w)"

fun conn_header :: "'c Conn \<Rightarrow> http_header" where
  "conn_header (PollConn c) = pheader c"
| "conn_header (WsConn w) = wheader w"

fun conn_copyHeaderFrom :: "'c Conn \<Rightarrow> 'c Conn \<Rightarrow> 'c Conn" where
  "conn_copyHeaderFrom (PollConn c) from = PollConn (c\<lparr>pheader := copyHeaderFrom (pheader c) (conn_header from)\<rparr>)"
| "conn_copyHeaderFrom (WsConn w) from = WsConn (w\<lparr>wheader := copyHeaderFrom (wheader w) (conn_header from)\<rparr>)"

section \<open>Messages on the wire\<close>

text \<open>A message of several chunks, written without an error.\<close>

fun write_chunks :: "'c wslib \<Rightarrow> bytes list \<Rightarrow> 'c \<Rightarrow> goerr option \<times> 'c" where
  "write_chunks W [] c = writer_Close W c"
| "write_chunks W (x # xs) c =
     (case writer_Write W x c of (Some e, c') \<Rightarrow> (Some e, c') | (None, c') \<Rightarrow> write_chunks W xs c')"

definition write_message :: "'c wslib \<Rightarrow> int \<Rightarrow> bytes list \<Rightarrow> 'c \<Rightarrow> goerr option \<times> 'c" where
  "write_message W m xs c =
     (case NextWriter W m c of (Some e, c') \<Rightarrow> (Some e, c') | (None, c') \<Rightarrow> write_chunks W xs c')"

lemma Ws_WritePacket_message:
  assumes "Ws_WritePacket W p c = (None, c')"
  shows "msgType p = MessageTypeString \<and>
       write_message W TextMessage ([pktType p + 0x30] # (if data p = [] then [] else [data p])) c = (None, c') \<or>
     msgType p = MessageTypeBinary \<and>
       write_message W BinaryMessage ([pktType p] # (if data p = [] then [] else [data p])) c = (None, c')"
  using assms
  by (auto simp: Ws_WritePacket_def nextWriter_def write_message_def Let_def
      split: if_splits option.splits prod.splits)

text \<open>
  C27. What one end writes to a websocket the other end reads: if the library delivers the message
  of a successful write to the peer, the packet read is the packet written, for every packet type
  and data.
\<close>
theorem websocket_roundtrip:
  assumes "Ws_WritePacket W p c = (None, c')"
    and "\<And>m xs. write_message W m xs c = (None, c') \<Longrightarrow> NextReader W' (peer c') = (Inr (m, concat xs, None), d)"
  shows "Ws_ReadPacket W' (peer c') = (Inr p, d)"
  using Ws_WritePacket_message [OF assms(1)]
  by (cases p) (auto simp: Ws_ReadPacket_def dest!: assms(2))

text \<open>A link that is a queue of messages, with the message that is being written.\<close>

type_synonym qlink = "(int \<times> bytes) list \<times> int \<times> bytes"

definition q_lib :: "qlink wslib" where
  "q_lib =
     \<lparr>NextReader = (\<lambda>(q, w). case q of [] \<Rightarrow> (Inl EOF, ([], w)) | (m, x) # q' \<Rightarrow> (Inr (m, x, None), (q', w))),
      NextWriter = (\<lambda>m (q, _). (None, (q, m, []))),
      writer_Write = (\<lambda>x (q, m, y). (None, (q, m, y @ x))),
      writer_Close = (\<lambda>(q, m, y). (None, (q @ [(m, y)], 0, []))),
      ws_Close = (\<lambda>c. (None, c)),
      ws_SetReadDeadline = (\<lambda>_ c. (None, c)),
      ws_SetWriteDeadline = (\<lambda>_ c. (None, c))\<rparr>"

lemma q_lib_chunks: "write_chunks q_lib xs (q, m, y) = (None, (q @ [(m, y @ concat xs)], 0, []))"
  by (induction xs arbitrary: y) (simp_all add: q_lib_def)

text \<open>A ping over the queue.\<close>
theorem websocket_roundtrip_witness:
  "Ws_ReadPacket q_lib (snd (Ws_WritePacket q_lib \<lparr>msgType = 0, pktType = 2, data = asc ''probe''\<rparr> ([], 0, []))) =
     (Inr \<lparr>msgType = 0, pktType = 2, data = asc ''probe''\<rparr>, ([], 0, []))"
proof -
  let ?p = "\<lparr>msgType = 0, pktType = 2, data = asc ''probe''\<rparr>"
  let ?c = "([(1, asc ''2probe'')], 0, []) :: qlink"
  have w: "Ws_WritePacket q_lib ?p ([], 0, []) = (None, ?c)"
    by (simp add: Ws_WritePacket_def nextWriter_def q_lib_def asc_def)
  have "NextReader q_lib (id ?c) = (Inr (m, concat xs, None), ([], 0, []))"
    if "write_message q_lib m xs ([], 0, []) = (None, ?c)" for m xs
  proof -
    have "NextWriter q_lib m ([], 0, []) = (None, ([], m, []))" by (simp add: q_lib_def)
    with that have "m = 1 \<and> concat xs = asc ''2probe''" by (simp add: write_message_def q_lib_chunks)
    then show ?thesis by (simp add: q_lib_def)
  qed
  from websocket_roundtrip [OF w, of q_lib id, OF this] w show ?thesis by simp
qed

end
