(* ===== verification/Engine_Session.thy ===== *)
theory Engine_Session
  imports Engine_Protocol
begin

text \<open>
  \<open>engine/session.go\<close>: session ids from the clock and random bytes, written in base32, and the
  table of live sessions.
\<close>

section \<open>Sessions\<close>

text \<open>
  \<open>generateSidBytes\<close>: the milliseconds of the clock, high byte first, and random bytes. The
  session id is their base32 text without padding.
\<close>

definition time_bytes :: "uint64 \<Rightarrow> bytes" where
  "time_bytes now =
     [ucast (drop_bit 40 now), ucast (drop_bit 32 now), ucast (drop_bit 24 now),
      ucast (drop_bit 16 now), ucast (drop_bit 8 now), ucast now]"

definition generateSidBytes :: "uint64 \<Rightarrow> bytes \<Rightarrow> bytes" where
  "generateSidBytes now rnd = time_bytes now @ rnd"

definition b32_alphabet :: bytes where
  "b32_alphabet = asc ''0123456789ABCDEFGHJKMNPQRSTVWXYZ''"

definition byte_bits :: "byte \<Rightarrow> bool list" where
  "byte_bits b = map (bit b) [7, 6, 5, 4, 3, 2, 1, 0]"

fun b32_groups :: "bool list \<Rightarrow> bool list list" where
  "b32_groups (a # b # c # d # e # r) = [a, b, c, d, e] # b32_groups r"
| "b32_groups [] = []"
| "b32_groups r = [r @ replicate (5 - length r) False]"

definition b32_value :: "bool list \<Rightarrow> nat" where
  "b32_value g = foldl (\<lambda>n b. 2 * n + (if b then 1 else 0)) 0 g"

definition EncodeToString :: "bytes \<Rightarrow> bytes" where
  "EncodeToString s = map (\<lambda>g. b32_alphabet ! b32_value g) (b32_groups (concat (map byte_bits s)))"

definition session_id :: "uint64 \<Rightarrow> bytes \<Rightarrow> bytes" where
  "session_id now rnd = EncodeToString (generateSidBytes now rnd)"

text \<open>The table of sessions.\<close>

type_synonym sessionManager = "bytes \<rightharpoonup> nat"

definition session_Get :: "bytes \<Rightarrow> sessionManager \<Rightarrow> nat option" where
  "session_Get i m = m i"

definition session_Remove :: "bytes \<Rightarrow> sessionManager \<Rightarrow> sessionManager" where
  "session_Remove i m = m(i := None)"

definition NewSession :: "uint64 \<Rightarrow> bytes \<Rightarrow> nat \<Rightarrow> sessionManager \<Rightarrow> bytes \<times> sessionManager" where
  "NewSession now rnd so m = (session_id now rnd, m(session_id now rnd \<mapsto> so))"

section \<open>Session ids\<close>

lemma byte_bits_inj: "byte_bits a = byte_bits b \<Longrightarrow> a = b"
proof (rule bit_word_eqI)
  fix n assume e: "byte_bits a = byte_bits b" and n: "n < LENGTH(8)"
  then have "n \<in> {7, 6, 5, 4, 3, 2, 1, 0}" by auto
  then show "bit a n = bit b n" using e by (auto simp: byte_bits_def)
qed

lemma length_byte_bits [simp]: "length (byte_bits b) = 8"
  by (simp add: byte_bits_def)

lemma length_all_bits [simp]: "length (concat (map byte_bits s)) = 8 * length s"
  by (induction s) simp_all

lemma all_bits_inj: "concat (map byte_bits s) = concat (map byte_bits t) \<Longrightarrow> length s = length t \<Longrightarrow> s = t"
proof (induction s arbitrary: t)
  case (Cons a s)
  then obtain b t' where "t = b # t'" by (cases t) auto
  with Cons show ?case using byte_bits_inj by fastforce
qed simp

lemma b32_groups_inj: "b32_groups r = b32_groups r' \<Longrightarrow> length r' = length r \<Longrightarrow> r = r'"
proof (induction r arbitrary: r' rule: b32_groups.induct)
  case (1 a b c d e r)
  then obtain a' b' c' d' e' t where "r' = a' # b' # c' # d' # e' # t"
    by (auto simp: length_Suc_conv)
  with 1 show ?case by auto
qed (auto simp: length_Suc_conv)

lemma b32_groups_length: "g \<in> set (b32_groups r) \<Longrightarrow> length g = 5"
  by (induction r rule: b32_groups.induct) auto

lemma length_b32_groups: "length (b32_groups r) = (length r + 4) div 5"
  by (induction r rule: b32_groups.induct) auto

definition b32_unvalue :: "nat \<Rightarrow> bool list" where
  "b32_unvalue n = map (\<lambda>i. odd (n div 2 ^ i)) [4, 3, 2, 1, 0]"

lemma b32_value_bound:
  assumes "length g = 5"
  shows "b32_value g < 32" "b32_unvalue (b32_value g) = g"
proof -
  obtain a b c d e where g: "g = [a, b, c, d, e]"
    using assms by (auto simp: length_Suc_conv eval_nat_numeral)
  show "b32_value g < 32" "b32_unvalue (b32_value g) = g"
    unfolding g by (cases a; cases b; cases c; cases d; cases e; simp add: b32_value_def b32_unvalue_def)+
qed

lemma b32_alphabet_distinct: "distinct b32_alphabet" "length b32_alphabet = 32"
  by (simp_all add: b32_alphabet_def asc_def)

lemma map_alphabet_inj:
  "map (\<lambda>g. b32_alphabet ! b32_value g) gs = map (\<lambda>g. b32_alphabet ! b32_value g) hs \<Longrightarrow>
   \<forall>g \<in> set gs \<union> set hs. length g = 5 \<Longrightarrow> gs = hs"
proof (induction gs arbitrary: hs)
  case (Cons g gs)
  then obtain h hs' where h: "hs = h # hs'" by (cases hs) auto
  have "b32_value g = b32_value h"
    using Cons.prems h b32_alphabet_distinct b32_value_bound(1) by (auto simp: nth_eq_iff_index_eq)
  then have "g = h" using Cons.prems(2) h b32_value_bound(2) by (metis UnCI list.set_intros(1))
  with Cons h show ?case by auto
qed simp

lemma EncodeToString_inj:
  assumes "EncodeToString s = EncodeToString t" and "length s = length t"
  shows "s = t"
proof -
  have "b32_groups (concat (map byte_bits s)) = b32_groups (concat (map byte_bits t))"
    using assms(1) b32_groups_length unfolding EncodeToString_def by (intro map_alphabet_inj) auto
  then show ?thesis using assms(2) by (intro all_bits_inj b32_groups_inj) simp_all
qed

lemma time_bytes_inj: "time_bytes a = time_bytes b \<longleftrightarrow> take_bit 48 a = take_bit 48 b"
proof
  assume e: "time_bytes a = time_bytes b"
  have "bit a n = bit b n" if "n < 48" for n
  proof -
    have "bit (ucast (drop_bit (8 * k) a) :: byte) i = bit (ucast (drop_bit (8 * k) b) :: byte) i"
      if "k < 6" for k i
    proof -
      have "k = 0 \<or> k = 1 \<or> k = 2 \<or> k = 3 \<or> k = 4 \<or> k = 5" using that by auto
      then show ?thesis using e by (auto simp: time_bytes_def)
    qed
    then have "bit (ucast (drop_bit (8 * (n div 8)) a) :: byte) (n mod 8) =
        bit (ucast (drop_bit (8 * (n div 8)) b) :: byte) (n mod 8)" using that by simp
    moreover have "n mod 8 < Suc (Suc (Suc (Suc (Suc (Suc (Suc (Suc 0)))))))" by presburger
    ultimately show ?thesis by (simp add: bit_simps add.commute)
  qed
  then show "take_bit 48 a = take_bit 48 b" by (auto intro!: bit_eqI simp: bit_simps)
next
  assume e: "take_bit 48 a = take_bit 48 b"
  then have b: "bit a n = bit b n" if "n < 48" for n
    using that e by (metis bit_take_bit_iff)
  have "(ucast (drop_bit k a) :: byte) = ucast (drop_bit k b)" if "k \<le> 40" for k
    using that b by (intro bit_word_eqI) (simp add: bit_simps)
  from this [of 40] this [of 32] this [of 24] this [of 16] this [of 8] this [of 0]
  show "time_bytes a = time_bytes b" by (simp add: time_bytes_def)
qed

text \<open>
  C28. Session ids have 26 characters, and two of them are equal only when their random bytes
  are and their clocks agree on the low 48 bits of milliseconds.
\<close>
theorem session_id_unique:
  assumes "length rnd = 10" and "length rnd' = 10"
  shows "length (session_id now rnd) = 26 \<and>
    (session_id now rnd = session_id now' rnd' \<longleftrightarrow> take_bit 48 now = take_bit 48 now' \<and> rnd = rnd')"
proof -
  have l: "length (time_bytes t) = 6" for t by (simp add: time_bytes_def)
  have "length (session_id now rnd) = 26"
    using assms l by (simp add: session_id_def EncodeToString_def length_b32_groups generateSidBytes_def)
  moreover have "session_id now rnd = session_id now' rnd' \<longleftrightarrow> time_bytes now @ rnd = time_bytes now' @ rnd'"
    using EncodeToString_inj [of "time_bytes now @ rnd" "time_bytes now' @ rnd'"] assms l
    by (auto simp: session_id_def generateSidBytes_def)
  ultimately show ?thesis using l time_bytes_inj by auto
qed

text \<open>Two ids of the same millisecond.\<close>
theorem session_id_unique_witness:
  "session_id 1700000000000 (replicate 10 1) \<noteq> session_id 1700000000000 (replicate 10 2)"
  using session_id_unique [of "replicate 10 1" "replicate 10 2" 1700000000000 1700000000000]
  by (simp add: replicate_eq_replicate)

end
