(* ===== verification/Engine_Server.thy ===== *)
theory Engine_Server
  imports Engine_Socket Engine_Websocket Engine_Session "HOL-Library.Monad_Syntax"
begin

text \<open>
  \<open>engine/server.go\<close> and the packet handler of \<open>engine/client.go\<close>: what the engine does with each
  packet, the goroutine that reads the packets of a session, the upgrade of a session to another
  connection, and the routing of requests. Calls of event handlers are recorded in their order.
\<close>

section \<open>Sockets with their connection\<close>

record 'c esocket =
  eio :: eioSocket
  econn :: "'c Conn"

type_synonym calls = "(nat \<times> byte \<times> bytes) list"

text \<open>\<open>Close\<close> runs once; afterwards it returns nil and does nothing.\<close>

definition esocket_Close :: "'c wslib \<Rightarrow> 'c esocket \<Rightarrow> goerr option \<times> 'c esocket" where
  "esocket_Close W s =
     (if life (eio s) = Some 0 then (None, s)
      else (case conn_Close W (econn s) of
        (e, c) \<Rightarrow> (e, s\<lparr>eio := Socket_Close (eio s), econn := c\<rparr>)))"

definition esocket_Read :: "'c wslib \<Rightarrow> int \<Rightarrow> int \<Rightarrow> 'c esocket \<Rightarrow> ((goerr + eioPacket) \<times> 'c esocket) list" where
  "esocket_Read W now readTimeout s =
     do {
       (e, c) \<leftarrow> conn_SetReadDeadline W (now + readTimeout) (econn s);
       case e of
         Some err \<Rightarrow> [(Inl err, s\<lparr>econn := c\<rparr>)]
       | None \<Rightarrow> do {
           (r, c') \<leftarrow> conn_ReadPacket W now c;
           [(r, s\<lparr>econn := c'\<rparr>)]
         }
     }"

section \<open>Packet handlers\<close>

text \<open>\<open>handle\<close> of the server: the error, the socket and the calls of event handlers.\<close>

definition Server_handle ::
  "'c wslib \<Rightarrow> eventHandlers \<Rightarrow> eioPacket \<Rightarrow> 'c esocket \<Rightarrow> goerr option \<times> 'c esocket \<times> calls" where
  "Server_handle W h p s =
     (if pktType p = PacketTypeOpen then (None, s, [])
      else if pktType p = PacketTypeClose
        then (case esocket_Close W s of
                (e, s') \<Rightarrow> (e, s', fire EventClose (msgType p) (data p) h))
      else if pktType p = PacketTypePing
        then (case Socket_Emit EventPong (msgType p) (ArgBytes (data p)) (eio s) of
                (e, i) \<Rightarrow> (e, s\<lparr>eio := i\<rparr>, fire EventPing (msgType p) (data p) h))
      else if pktType p = PacketTypePong then (None, s, fire EventPong (msgType p) (data p) h)
      else if pktType p = PacketTypeMessage then (None, s, fire EventMessage (msgType p) (data p) h)
      else if pktType p = PacketTypeUpgrade \<or> pktType p = PacketTypeNoop then (None, s, [])
      else (Some ErrInvalidPayload, s, []))"

definition Client_handle ::
  "'c wslib \<Rightarrow> eventHandlers \<Rightarrow> eioPacket \<Rightarrow> 'c esocket \<Rightarrow> goerr option \<times> 'c esocket \<times> calls" where
  "Client_handle W h p s =
     (if pktType p = PacketTypeOpen then (None, s, [])
      else if pktType p = PacketTypeClose
        then (case esocket_Close W s of
                (e, s') \<Rightarrow> (e, s', fire EventClose (msgType p) (data p) h))
      else if pktType p = PacketTypePing \<or> pktType p = PacketTypePong then (None, s, [])
      else if pktType p = PacketTypeMessage then (None, s, fire EventMessage (msgType p) (data p) h)
      else if pktType p = PacketTypeUpgrade \<or> pktType p = PacketTypeNoop then (None, s, [])
      else (Some ErrInvalidPayload, s, []))"

section \<open>The barrier\<close>

text \<open>
  \<open>engine/barrier.go\<close>: a lock that an upgrade holds. \<open>Wait\<close> takes and releases its reading side,
  \<open>Pause\<close> its writing side. Each gives the states it can go on in, none while it blocks.
\<close>

type_synonym barrier = bool

definition barrier_Wait :: "barrier \<Rightarrow> barrier list" where
  "barrier_Wait held = (if held then [] else [False])"

definition barrier_Pause :: "barrier \<Rightarrow> barrier list" where
  "barrier_Pause held = (if held then [] else [True])"

definition barrier_Resume :: "barrier \<Rightarrow> barrier" where
  "barrier_Resume held = False"

section \<open>The reading goroutine of a session\<close>

text \<open>
  The goroutine that \<open>NewServer\<close> starts for a session reads packets until an error; on a paused
  connection it waits at the barrier. Its deferred calls remove the session and then close the
  socket. \<open>got\<close> is the history of the packets read.
\<close>

datatype reader_pc = Reading | Waiting | Done

record 'c reader =
  rpc :: reader_pc
  rsock :: "'c esocket"
  rsess :: sessionManager
  rbarrier :: barrier
  rcalls :: calls
  got :: "eioPacket list"

definition new_reader :: "sessionManager \<Rightarrow> 'c esocket \<Rightarrow> 'c reader" where
  "new_reader m s = \<lparr>rpc = Reading, rsock = s, rsess = m, rbarrier = False, rcalls = [], got = []\<rparr>"

definition reader_moves :: "'c wslib \<Rightarrow> int \<Rightarrow> int \<Rightarrow> eventHandlers \<Rightarrow> 'c reader \<Rightarrow> 'c reader list" where
  "reader_moves W now readTimeout h r =
     (case rpc r of
        Done \<Rightarrow> []
      | Waiting \<Rightarrow> map (\<lambda>b. r\<lparr>rpc := Reading, rbarrier := b\<rparr>) (barrier_Wait (rbarrier r))
      | Reading \<Rightarrow> do {
          (x, s) \<leftarrow> esocket_Read W now readTimeout (rsock r);
          case x of
            Inl err \<Rightarrow>
              if err = ErrPollingConnPaused then [r\<lparr>rpc := Waiting, rsock := s\<rparr>]
              else [r\<lparr>rpc := Done,
                      rcalls := rcalls r @ fire EventClose MessageTypeString [] h,
                      rsess := session_Remove (sid (eio s)) (rsess r),
                      rsock := snd (esocket_Close W s)\<rparr>]
          | Inr p \<Rightarrow>
              (case Server_handle W h p s of
                 (_, s', cs) \<Rightarrow> [r\<lparr>rsock := s', rcalls := rcalls r @ cs, got := got r @ [p]\<rparr>])
        })"

text \<open>Meanwhile other goroutines emit, close the socket, upgrade it, use its connection or replace it.\<close>

inductive reader_step :: "'c wslib \<Rightarrow> int \<Rightarrow> eventHandlers \<Rightarrow> 'c reader \<Rightarrow> 'c reader \<Rightarrow> bool" for W rt h where
  moves: "r' \<in> set (reader_moves W now rt h r) \<Longrightarrow> reader_step W rt h r r'"
| emits: "submit p (eio (rsock r)) = (e, i) \<Longrightarrow> reader_step W rt h r (r\<lparr>rsock := (rsock r)\<lparr>eio := i\<rparr>\<rparr>)"
| closes: "reader_step W rt h r (r\<lparr>rsock := snd (esocket_Close W (rsock r))\<rparr>)"
| upgrade_starts: "b \<in> set (barrier_Pause (rbarrier r)) \<Longrightarrow> reader_step W rt h r (r\<lparr>rbarrier := b\<rparr>)"
| upgrade_ends: "reader_step W rt h r (r\<lparr>rbarrier := barrier_Resume (rbarrier r)\<rparr>)"
| conn_changes: "reader_step W rt h r (r\<lparr>rsock := (rsock r)\<lparr>econn := c\<rparr>\<rparr>)"

section \<open>Upgrade\<close>

fun write_all :: "'c wslib \<Rightarrow> int \<Rightarrow> int \<Rightarrow> eioPacket list \<Rightarrow> 'c Conn \<Rightarrow> 'c Conn list" where
  "write_all W now writeTimeout [] c = [c]"
| "write_all W now writeTimeout (p # ps) c =
     do {
       (_, c1) \<leftarrow> conn_SetWriteDeadline W (now + writeTimeout) c;
       (_, c2) \<leftarrow> conn_WritePacket W now p c1;
       write_all W now writeTimeout ps c2
     }"

fun handle_all :: "'c wslib \<Rightarrow> eventHandlers \<Rightarrow> eioPacket list \<Rightarrow> 'c esocket \<Rightarrow> 'c esocket \<times> calls" where
  "handle_all W h [] s = (s, [])"
| "handle_all W h (p # ps) s =
     (case Server_handle W h p s of (_, s', cs) \<Rightarrow> apsnd ((@) cs) (handle_all W h ps s'))"

text \<open>
  An upgrade gives the socket, the connection that is out of use afterwards (the new one when the
  upgrade fails, else the old one), and the calls of event handlers. The barrier that it holds
  keeps other upgrades of the session out, and \<open>now\<close> is the time at each of its deadlines.
\<close>

definition upgrade ::
  "'c wslib \<Rightarrow> int \<Rightarrow> int \<Rightarrow> int \<Rightarrow> eventHandlers \<Rightarrow> bytes \<Rightarrow> 'c Conn \<Rightarrow> 'c esocket \<Rightarrow>
     ('c esocket \<times> 'c Conn \<times> calls) outcome list" where
  "upgrade W now readTimeout writeTimeout h name newConn s =
     do {
       (_, n1) \<leftarrow> conn_SetReadDeadline W (now + readTimeout) newConn;
       (r, n2) \<leftarrow> conn_ReadPacket W now n1;
       case r of
         Inl _ \<Rightarrow> [Ret (s, snd (conn_Close W n2), [])]
       | Inr p \<Rightarrow>
           if pktType p \<noteq> PacketTypePing then [Ret (s, snd (conn_Close W n2), [])]
           else do {
             (_, n3) \<leftarrow> conn_SetWriteDeadline W (now + writeTimeout) n2;
             (e, n4) \<leftarrow> conn_WritePacket W now (p\<lparr>pktType := PacketTypePong\<rparr>) n3;
             if e \<noteq> None then [Ret (s, snd (conn_Close W n4), [])]
             else (case conn_Pause (econn s) of
               Panic \<Rightarrow> [Panic]
             | Ret (Some _, _) \<Rightarrow> [Ret (s, snd (conn_Close W n4), [])]
             | Ret (None, old) \<Rightarrow> do {
                 (_, n5) \<leftarrow> conn_SetReadDeadline W (now + readTimeout) n4;
                 (r', n6) \<leftarrow> conn_ReadPacket W now n5;
                 case r' of
                   Inl _ \<Rightarrow> [Ret (s\<lparr>econn := conn_Resume old\<rparr>, snd (conn_Close W n6), [])]
                 | Inr q \<Rightarrow>
                     if pktType q \<noteq> PacketTypeUpgrade
                     then [Ret (s\<lparr>econn := conn_Resume old\<rparr>, snd (conn_Close W n6), [])]
                     else (case conn_FlushOut (snd (conn_Close W old)) of
                       (outs, c1) \<Rightarrow> do {
                         n7 \<leftarrow> write_all W now writeTimeout outs n6;
                         case conn_FlushIn c1 of
                           (ins, c2) \<Rightarrow>
                             (case handle_all W h ins
                                (s\<lparr>eio := (eio s)\<lparr>transportName := name\<rparr>,
                                   econn := conn_copyHeaderFrom n7 c1\<rparr>) of
                                (s', cs) \<Rightarrow>
                                  [Ret (s', c2, cs @ fire EventUpgrade (msgType q) (data q) h)])
                       })
               })
           }
     }"

section \<open>New sessions\<close>

text \<open>
  What \<open>NewServer\<close> does with a socket that \<open>ServeHTTP\<close> announced: the open packet tells the client its
  session and the intervals in milliseconds, which are durations in nanoseconds at the server.
  Then the reading goroutine starts and \<open>onOpen\<close> is called, in either order.
\<close>

definition Parameters_json :: "Parameters \<Rightarrow> gval" where
  "Parameters_json p =
     GMap [(asc ''sid'', GStr (Parameters.SID p)), (asc ''upgrades'', GList (map GStr (Upgrades p))),
           (asc ''pingInterval'', GNum (FormatInt (sint (PingInterval p)))),
           (asc ''pingTimeout'', GNum (FormatInt (sint (PingTimeout p))))]"

definition open_parameters :: "goint \<Rightarrow> goint \<Rightarrow> bytes \<Rightarrow> Parameters" where
  "open_parameters interval timeout i =
     \<lparr>SID = i, Upgrades = [asc ''websocket''], PingInterval = go_div interval 1000000,
      PingTimeout = go_div timeout 1000000\<rparr>"

definition Server_accept :: "goint \<Rightarrow> goint \<Rightarrow> 'c esocket \<Rightarrow> goerr option \<times> 'c esocket" where
  "Server_accept interval timeout s =
     (case Socket_Emit EventOpen MessageTypeString
             (ArgJson (Parameters_json (open_parameters interval timeout (sid (eio s))))) (eio s) of
        (e, i) \<Rightarrow> (e, s\<lparr>eio := i\<rparr>))"

text \<open>\<open>newSession\<close>: a socket over a connection.\<close>

definition newSession :: "uint64 \<Rightarrow> bytes \<Rightarrow> 'c Conn \<Rightarrow> 'c esocket" where
  "newSession now rnd c = \<lparr>eio = new_eioSocket (session_id now rnd), econn = c\<rparr>"

section \<open>Requests\<close>

text \<open>A request passes when every given checker of its origin lets it pass.\<close>

definition checkOrigin :: "('r \<Rightarrow> bool) option list \<Rightarrow> 'r \<Rightarrow> bool" where
  "checkOrigin oc r = list_all (\<lambda>c. case c of None \<Rightarrow> True | Some f \<Rightarrow> f r) oc"

text \<open>
  \<open>Accept\<close> of the two transports: polling checks the origin itself and keeps the addresses and the
  headers of the request; for a websocket the library's \<open>Upgrade\<close> does, with a check that lets
  every request pass when none was set.
\<close>

definition polling_Accept ::
  "('r \<Rightarrow> bool) option \<Rightarrow> 'r \<Rightarrow> bytes \<Rightarrow> bytes \<Rightarrow> http_header \<Rightarrow> response option \<times> (goerr + 'c Conn)" where
  "polling_Accept check r host addr header =
     (if (case check of None \<Rightarrow> False | Some f \<Rightarrow> \<not> f r)
      then (Some (http_Error ''Forbidden'' 403 new_response), Inl ErrPollingOriginNotAllowed)
      else (None, Inr (PollConn (newPollingConn 8 host addr header))))"

definition websocket_Accept ::
  "('r \<Rightarrow> bool) option \<Rightarrow> (('r \<Rightarrow> bool) \<Rightarrow> 'r \<Rightarrow> goerr + 'c) \<Rightarrow> 'r \<Rightarrow> http_header \<Rightarrow> goerr + 'c Conn" where
  "websocket_Accept check upgrader r header =
     (let f = (case check of None \<Rightarrow> (\<lambda>_. True) | Some f \<Rightarrow> f) in
      case upgrader f r of
        Inl e \<Rightarrow> Inl e
      | Inr c \<Rightarrow> Inr (WsConn \<lparr>wconn = c, wheader = cloneHTTPHeader header\<rparr>))"

text \<open>
  \<open>ServeHTTP\<close> of the server: the actions it takes, for each outcome of its \<open>select\<close>. \<open>acc_ok\<close> is
  whether the transport's \<open>Accept\<close> gave a connection (it has answered the request otherwise),
  \<open>sessions\<close> gives the transport of each live session, \<open>is_done\<close> is whether the server was closed
  and \<open>takes\<close> whether the channel of new sockets takes another one.
\<close>

datatype action =
    Http_Error string nat
  | Create_Session bytes
  | Announce
  | Upgrade bytes bytes
  | Serve "bytes option"

definition getTransport :: "bytes \<Rightarrow> bytes option" where
  "getTransport name =
     (if name = asc ''websocket'' then Some (asc ''websocket'')
      else if name = asc ''polling'' then Some (asc ''polling'')
      else None)"

definition Server_ServeHTTP ::
  "bytes \<Rightarrow> bytes \<Rightarrow> bytes \<Rightarrow> bool \<Rightarrow> bool \<Rightarrow> bool \<Rightarrow> (bytes \<rightharpoonup> bytes) \<Rightarrow> action list list" where
  "Server_ServeHTTP q_eio q_transport q_sid acc_ok is_done takes sessions =
     (if q_eio \<noteq> asc ''3'' then [[Http_Error ''protocol version incompatible'' 400]]
      else case getTransport q_transport of
        None \<Rightarrow> [[Http_Error ''invalid transport'' 400]]
      | Some transport \<Rightarrow>
          if q_sid = [] then
            if \<not> acc_ok then [[]]
            else go_select
              [(is_done, [Create_Session transport]),
               (takes, [Create_Session transport, Announce, Serve None])]
          else (case sessions q_sid of
            None \<Rightarrow> [[Http_Error ''invalid session'' 400]]
          | Some name \<Rightarrow>
              if name \<noteq> transport then
                if \<not> acc_ok then [[]] else [[Upgrade q_sid transport, Serve (Some q_sid)]]
              else [[Serve (Some q_sid)]]))"

section \<open>The handlers\<close>

lemmas list_monad = set_list_bind List.bind_simps

lemma snd_conn_Close_ws [simp]:
  "snd (conn_Close W (WsConn w)) = WsConn (w\<lparr>wconn := snd (ws_Close W (wconn w))\<rparr>)"
  by (simp split: prod.splits)

text \<open>What a packet makes the server call.\<close>

definition packet_calls :: "eventHandlers \<Rightarrow> eioPacket \<Rightarrow> calls" where
  "packet_calls h p =
     (if pktType p = PacketTypeClose then fire EventClose (msgType p) (data p) h
      else if pktType p = PacketTypePing then fire EventPing (msgType p) (data p) h
      else if pktType p = PacketTypePong then fire EventPong (msgType p) (data p) h
      else if pktType p = PacketTypeMessage then fire EventMessage (msgType p) (data p) h
      else [])"

lemma Server_handle_calls: "Server_handle W h p s = (e, s', cs) \<Longrightarrow> cs = packet_calls h p"
  by (auto simp: Server_handle_def packet_calls_def split: if_splits prod.splits)

lemma submit_frame: "submit p i = (e, i') \<Longrightarrow> sid i' = sid i \<and> (life i = Some 0 \<longrightarrow> life i' = Some 0)"
  by (auto simp: submit_def split: option.splits nat.splits)

lemma esocket_Close_frame:
  "esocket_Close W s = (e, s') \<Longrightarrow> sid (eio s') = sid (eio s) \<and> life (eio s') = Some 0"
  by (auto simp: esocket_Close_def Socket_Close_def split: if_splits prod.splits)

lemma Server_handle_frame: "Server_handle W h p s = (e, s', cs) \<Longrightarrow> sid (eio s') = sid (eio s)"
  by (auto simp: Server_handle_def Socket_Emit_def dest: esocket_Close_frame submit_frame
      split: if_splits prod.splits option.splits sum.splits)

lemma esocket_Read_frame:
  assumes "(x, s') \<in> set (esocket_Read W now rt s)"
  shows "eio s' = eio s"
proof -
  have "\<forall>y \<in> set (esocket_Read W now rt s). eio (snd y) = eio s"
    unfolding esocket_Read_def set_list_bind
    by (intro ballI, elim UN_E, simp split: prod.splits option.splits) (fastforce simp: set_list_bind)+
  with assms show ?thesis by fastforce
qed

text \<open>
  C24. Over any sequence of packets without a close on an open connection, every ping is answered
  with a pong of the same message type and data, in order and with nothing else sent, and the
  handlers are called for pings, pongs and messages in the order of the packets. The handler of
  \<open>EventPing\<close> is called when a ping is received, not when one is written.
\<close>
theorem pings_answered:
  assumes "life (eio s) = None" and "\<forall>p \<in> set ps. pktType p \<noteq> PacketTypeClose"
  shows "handle_all W h ps s =
    (s\<lparr>eio := (eio s)\<lparr>out := out (eio s) @
         map (\<lambda>p. p\<lparr>pktType := PacketTypePong\<rparr>) (filter (\<lambda>p. pktType p = PacketTypePing) ps)\<rparr>\<rparr>,
     concat (map (packet_calls h) ps))"
  using assms
proof (induction ps arbitrary: s)
  case (Cons p ps)
  show ?case
  proof (cases "pktType p = PacketTypePing")
    case True
    let ?s = "s\<lparr>eio := (eio s)\<lparr>out := out (eio s) @ [p\<lparr>pktType := PacketTypePong\<rparr>]\<rparr>\<rparr>"
    have "Server_handle W h p s = (None, ?s, packet_calls h p)"
      using True Cons.prems(1)
      by (cases p) (simp add: Server_handle_def Socket_Emit_def event_packet_def emit_data_def submit_def packet_calls_def)
    with Cons.IH [of ?s] Cons.prems True show ?thesis by simp
  next
    case False
    then have "\<exists>e. Server_handle W h p s = (e, s, packet_calls h p)"
      using Cons.prems(2) by (auto simp: Server_handle_def packet_calls_def)
    with Cons.IH [of s] Cons.prems False show ?thesis by auto
  qed
qed simp

definition demo_ws :: "qlink Conn" where
  "demo_ws = WsConn \<lparr>wconn = ([(1, asc ''2probe''), (1, asc ''5'')], 0, []), wheader = Map.empty\<rparr>"

definition demo_esocket :: "qlink esocket" where
  "demo_esocket = \<lparr>eio = new_eioSocket [],
     econn = PollConn ((plain_conn 8)\<lparr>outq := [\<lparr>msgType = 0, pktType = 4, data = asc ''hi''\<rparr>]\<rparr>)\<rparr>"

text \<open>A ping between two messages.\<close>
theorem pings_answered_witness:
  "handle_all q_lib (On EventMessage 3 newEventHandlers)
      [\<lparr>msgType = 0, pktType = 4, data = [1]\<rparr>, \<lparr>msgType = 0, pktType = 2, data = [9]\<rparr>, \<lparr>msgType = 1, pktType = 4, data = [2]\<rparr>]
      demo_esocket =
    (demo_esocket\<lparr>eio := (new_eioSocket [])\<lparr>out := [\<lparr>msgType = 0, pktType = 3, data = [9]\<rparr>]\<rparr>\<rparr>,
     [(3, 0, [1]), (3, 1, [2])])"
  using pings_answered [of demo_esocket "[\<lparr>msgType = 0, pktType = 4, data = [1]\<rparr>,
      \<lparr>msgType = 0, pktType = 2, data = [9]\<rparr>, \<lparr>msgType = 1, pktType = 4, data = [2]\<rparr>]" q_lib
      "On EventMessage 3 newEventHandlers"]
  by (simp add: demo_esocket_def new_eioSocket_def packet_calls_def fire_def On_def newEventHandlers_def
      del: handle_all.simps)

section \<open>Upgrades\<close>

text \<open>
  The exchange an upgrade waits for on a new websocket: a ping that is answered with a pong, then
  the upgrade packet.
\<close>

definition handshake :: "'c wslib \<Rightarrow> int \<Rightarrow> int \<Rightarrow> 'c \<Rightarrow> (eioPacket \<times> 'c) option" where
  "handshake W rd wd new =
     (case Ws_ReadPacket W (snd (ws_SetReadDeadline W rd new)) of
        (Inr p, n1) \<Rightarrow>
          if pktType p = PacketTypePing then
            (case Ws_WritePacket W (p\<lparr>pktType := PacketTypePong\<rparr>) (snd (ws_SetWriteDeadline W wd n1)) of
               (None, n2) \<Rightarrow>
                 (case Ws_ReadPacket W (snd (ws_SetReadDeadline W rd n2)) of
                    (Inr q, n3) \<Rightarrow> if pktType q = PacketTypeUpgrade then Some (q, n3) else None
                  | _ \<Rightarrow> None)
             | _ \<Rightarrow> None)
          else None
      | _ \<Rightarrow> None)"

definition ws_write_all :: "'c wslib \<Rightarrow> int \<Rightarrow> eioPacket list \<Rightarrow> 'c \<Rightarrow> 'c" where
  "ws_write_all W wd ps c = foldl (\<lambda>c p. snd (Ws_WritePacket W p (snd (ws_SetWriteDeadline W wd c)))) c ps"

lemma write_all_ws:
  "write_all W now wt ps (WsConn w) = [WsConn (w\<lparr>wconn := ws_write_all W (now + wt) ps (wconn w)\<rparr>)]"
  by (induction ps arbitrary: w) (simp_all add: ws_write_all_def split: prod.splits)

text \<open>
  C7. An upgrade of a polling session to a websocket succeeds as a whole or leaves the session as
  it was. After the exchange on the websocket it succeeds: the session is on the websocket, which
  has the packets queued for polling written to it in order and the headers of both connections,
  the packets received by polling have been handled in order before the upgrade event, and the
  polling connection is closed and empty. Without the exchange the session keeps its connection,
  not paused and with its queues, the websocket is closed and no handler is called.
\<close>
theorem upgrade_atomic:
  assumes "econn s = PollConn c" and "\<not> paused c"
  shows "case handshake W (now + rt) (now + wt) (wconn w) of
      Some (q, n) \<Rightarrow>
        (case handle_all W h (inq c)
           (s\<lparr>eio := (eio s)\<lparr>transportName := name\<rparr>,
              econn := WsConn \<lparr>wconn = ws_write_all W (now + wt) (outq c) n,
                              wheader = copyHeaderFrom (wheader w) (pheader c)\<rparr>\<rparr>) of
           (s', cs) \<Rightarrow>
             upgrade W now rt wt h name (WsConn w) s =
               [Ret (s', PollConn (c\<lparr>paused := True, pclosed := True, inq := [], outq := []\<rparr>),
                     cs @ fire EventUpgrade (msgType q) (data q) h)])
    | None \<Rightarrow> (\<exists>n. upgrade W now rt wt h name (WsConn w) s =
          [Ret (s, WsConn (w\<lparr>wconn := snd (ws_Close W n)\<rparr>), [])])"
proof -
  have r: "s\<lparr>econn := PollConn (c\<lparr>paused := False\<rparr>)\<rparr> = s"
    using assms by (cases s; cases c) simp
  show ?thesis
    using assms r
    by (cases w)
       (auto simp: upgrade_def handshake_def Pause_def Resume_def Polling_Close_def FlushOut_def FlushIn_def
        Let_def write_all_ws simp del: conn_Close.simps(2) split: prod.splits sum.splits option.splits)
qed

text \<open>A probe, the upgrade, and a packet that was queued for polling.\<close>
theorem upgrade_atomic_witness:
  "upgrade q_lib 0 10 10 newEventHandlers (asc ''websocket'') demo_ws demo_esocket =
     [Ret (demo_esocket\<lparr>eio := (eio demo_esocket)\<lparr>transportName := asc ''websocket''\<rparr>,
             econn := WsConn \<lparr>wconn = ([(1, asc ''3probe''), (1, asc ''4hi'')], 0, []), wheader = Map.empty\<rparr>\<rparr>,
           PollConn ((plain_conn 8)\<lparr>paused := True, pclosed := True\<rparr>), [])]"
proof -
  let ?l = "([(1, asc ''2probe''), (1, asc ''5'')], 0, []) :: qlink"
  have h: "handshake q_lib 10 10 ?l = Some (\<lparr>msgType = 0, pktType = 5, data = []\<rparr>, ([(1, asc ''3probe'')], 0, []))"
    by (simp add: handshake_def Ws_ReadPacket_def Ws_WritePacket_def nextWriter_def q_lib_def asc_def)
  show ?thesis
    using upgrade_atomic [of demo_esocket "(plain_conn 8)\<lparr>outq := [\<lparr>msgType = 0, pktType = 4, data = asc ''hi''\<rparr>]\<rparr>",
        where W = q_lib and w = "\<lparr>wconn = ?l, wheader = Map.empty\<rparr>" and h = newEventHandlers
        and name = "asc ''websocket''" and now = 0 and rt = 10 and wt = 10] h
    by (simp add: demo_esocket_def demo_ws_def newPollingConn_def ws_write_all_def Ws_WritePacket_def nextWriter_def
        q_lib_def fire_def newEventHandlers_def copyHeaderFrom_def cloneHTTPHeader_def asc_def)
qed

text \<open>
  A session never moves to a polling connection: nothing can post to the new connection before
  the upgrade has installed it, so the first read of the exchange times out, the new connection
  is closed, and the session is left as it was. This is the only outcome.
\<close>
theorem no_upgrade_to_polling:
  "upgrade W now rt wt h name (PollConn (newPollingConn n la ra hdr)) s =
     [Ret (s, PollConn ((newPollingConn n la ra hdr)\<lparr>readDeadline := Some (now + rt), pclosed := True\<rparr>), [])]"
  by (simp add: upgrade_def newPollingConn_def Polling_SetReadDeadline_def Polling_ReadPacket_def
      Polling_Close_def go_select_def go_select_default_def)

section \<open>Reading goroutines\<close>

lemma reader_moves_cases:
  assumes "r' \<in> set (reader_moves W now rt h r)"
  obtains (resumed) "rpc r = Waiting" "\<not> rbarrier r" "r' = r\<lparr>rpc := Reading, rbarrier := False\<rparr>"
  | (paused) s where "rpc r = Reading" "(Inl ErrPollingConnPaused, s) \<in> set (esocket_Read W now rt (rsock r))"
      "r' = r\<lparr>rpc := Waiting, rsock := s\<rparr>"
  | (failed) e s where "rpc r = Reading" "(Inl e, s) \<in> set (esocket_Read W now rt (rsock r))" "e \<noteq> ErrPollingConnPaused"
      "r' = r\<lparr>rpc := Done, rcalls := rcalls r @ fire EventClose MessageTypeString [] h,
              rsess := session_Remove (sid (eio s)) (rsess r), rsock := snd (esocket_Close W s)\<rparr>"
  | (handled) p s e s' cs where "rpc r = Reading" "(Inr p, s) \<in> set (esocket_Read W now rt (rsock r))"
      "Server_handle W h p s = (e, s', cs)"
      "r' = r\<lparr>rsock := s', rcalls := rcalls r @ cs, got := got r @ [p]\<rparr>"
proof (cases "rpc r")
  case Reading
  with assms obtain x s where x: "(x, s) \<in> set (esocket_Read W now rt (rsock r))"
    and m: "r' \<in> set (case x of
            Inl err \<Rightarrow>
              if err = ErrPollingConnPaused then [r\<lparr>rpc := Waiting, rsock := s\<rparr>]
              else [r\<lparr>rpc := Done,
                      rcalls := rcalls r @ fire EventClose MessageTypeString [] h,
                      rsess := session_Remove (sid (eio s)) (rsess r),
                      rsock := snd (esocket_Close W s)\<rparr>]
          | Inr p \<Rightarrow>
              (case Server_handle W h p s of
                 (_, s', cs) \<Rightarrow> [r\<lparr>rsock := s', rcalls := rcalls r @ cs, got := got r @ [p]\<rparr>]))"
    by (auto simp: reader_moves_def set_list_bind)
  show ?thesis
  proof (cases x)
    case (Inl e)
    with x m Reading paused failed show ?thesis by (auto split: if_splits)
  next
    case (Inr p)
    obtain e s' cs where sh: "Server_handle W h p s = (e, s', cs)" by (metis prod_cases3)
    show ?thesis by (rule handled [OF Reading _ sh]) (use x m Inr sh in auto)
  qed
qed (use assms resumed in \<open>auto simp: reader_moves_def barrier_Wait_def split: if_splits\<close>)

definition reader_inv :: "sessionManager \<Rightarrow> bytes \<Rightarrow> eventHandlers \<Rightarrow> 'c reader \<Rightarrow> bool" where
  "reader_inv m i h r \<longleftrightarrow> sid (eio (rsock r)) = i \<and>
     (if rpc r = Done
      then rsess r = session_Remove i m \<and> life (eio (rsock r)) = Some 0 \<and>
        rcalls r = concat (map (packet_calls h) (got r)) @ fire EventClose MessageTypeString [] h
      else rsess r = m \<and> rcalls r = concat (map (packet_calls h) (got r)))"

lemma reader_inv_moves:
  assumes "r' \<in> set (reader_moves W now rt h r)" and "reader_inv m i h r"
  shows "reader_inv m i h r'"
  using assms(1)
proof (cases rule: reader_moves_cases)
  case (failed e s)
  obtain e2 s2 where "esocket_Close W s = (e2, s2)" by (metis surj_pair)
  with failed assms(2) esocket_Read_frame [OF failed(2)] esocket_Close_frame show ?thesis
    by (fastforce simp: reader_inv_def)
next
  case (handled p s e s' cs)
  with assms(2) esocket_Read_frame [OF handled(2)] Server_handle_calls [OF handled(3)]
    Server_handle_frame [OF handled(3)]
  show ?thesis by (simp add: reader_inv_def)
next
  case (paused s)
  with assms(2) esocket_Read_frame [OF paused(2)] show ?thesis by (simp add: reader_inv_def)
qed (use assms(2) in \<open>simp add: reader_inv_def\<close>)

lemma reader_inv_step:
  assumes "reader_step W rt h r r'" and "reader_inv m i h r"
  shows "reader_inv m i h r'"
  using assms(1)
proof (cases rule: reader_step.cases)
  case (moves now)
  then show ?thesis using reader_inv_moves assms(2) by blast
next
  case (emits p e i')
  with assms(2) submit_frame [OF emits(2)] show ?thesis by (auto simp: reader_inv_def)
next
  case closes
  obtain e s where "esocket_Close W (rsock r) = (e, s)" by (metis surj_pair)
  with closes assms(2) esocket_Close_frame show ?thesis by (fastforce simp: reader_inv_def)
next
  case (conn_changes c)
  with assms(2) show ?thesis by (simp add: reader_inv_def)
qed (use assms(2) in \<open>simp_all add: reader_inv_def\<close>)

lemma reader_inv_reach:
  "(reader_step W rt h)\<^sup>*\<^sup>* (new_reader m s) r \<Longrightarrow> reader_inv m (sid (eio s)) h r"
proof (induction rule: rtranclp_induct)
  case base
  then show ?case by (simp add: reader_inv_def new_reader_def)
next
  case (step r r')
  then show ?case using reader_inv_step by blast
qed

text \<open>
  C13. The reading goroutine of a session, whatever other goroutines do meanwhile to the socket
  and its connection: handlers are called for exactly the packets read, in their order; when it
  has ended, one close event has followed them, its session is removed, the socket is closed, and
  it never moves again; before that the table of sessions is untouched, and it reads, or waits
  for the upgrade that holds the barrier, after which it reads on.
\<close>
theorem reader_lifecycle:
  assumes "(reader_step W rt h)\<^sup>*\<^sup>* (new_reader m s) r"
  shows "rcalls r = concat (map (packet_calls h) (got r)) @
      (if rpc r = Done then fire EventClose MessageTypeString [] h else []) \<and>
    rsess r = (if rpc r = Done then session_Remove (sid (eio s)) m else m) \<and>
    (if rpc r = Done then life (eio (rsock r)) = Some 0 \<and> reader_moves W now rt h r = []
     else if rpc r = Waiting then reader_moves W now rt h r =
         (if rbarrier r then [] else [r\<lparr>rpc := Reading, rbarrier := False\<rparr>])
     else rpc r = Reading)"
  using reader_inv_reach [OF assms]
  by (cases "rpc r") (auto simp: reader_inv_def reader_moves_def barrier_Wait_def)

text \<open>A socket whose polling connection was closed: one read, and the session is over.\<close>

lemma demo_reader_run:
  "\<exists>r. (reader_step q_lib 10 h)\<^sup>*\<^sup>* (new_reader [[] \<mapsto> 7] demo_esocket) r \<and> rpc r = Done \<and> got r = [] \<and>
     rcalls r = fire EventClose MessageTypeString [] h"
proof -
  let ?c = "PollConn (Polling_Close (plain_conn 8)) :: qlink Conn"
  let ?r1 = "(new_reader [[] \<mapsto> 7] demo_esocket)\<lparr>rsock := demo_esocket\<lparr>econn := ?c\<rparr>\<rparr>"
  let ?r2 = "?r1\<lparr>rpc := Done, rcalls := fire EventClose MessageTypeString [] h,
    rsess := session_Remove [] [[] \<mapsto> 7],
    rsock := demo_esocket\<lparr>econn := ?c, eio := Socket_Close (eio demo_esocket)\<rparr>\<rparr>"
  have 1: "reader_step q_lib 10 h (new_reader [[] \<mapsto> 7] demo_esocket) ?r1"
    using reader_step.conn_changes [of q_lib 10 h "new_reader [[] \<mapsto> 7] demo_esocket" ?c]
    by (simp add: new_reader_def)
  have "?r2 \<in> set (reader_moves q_lib 0 10 h ?r1)"
    by (simp add: reader_moves_def new_reader_def esocket_Read_def Polling_SetReadDeadline_def Polling_Close_def
        newPollingConn_def go_select_def go_select_default_def esocket_Close_def demo_esocket_def new_eioSocket_def)
  then have 2: "reader_step q_lib 10 h ?r1 ?r2" by (rule reader_step.moves)
  from 1 2 have "(reader_step q_lib 10 h)\<^sup>*\<^sup>* (new_reader [[] \<mapsto> 7] demo_esocket) ?r2"
    by (meson r_into_rtranclp rtranclp.rtrancl_into_rtrancl)
  then show ?thesis by (intro exI [of _ ?r2]) (simp add: new_reader_def)
qed

theorem reader_lifecycle_witness:
  "\<exists>r. (reader_step q_lib 10 newEventHandlers)\<^sup>*\<^sup>* (new_reader [[] \<mapsto> 7] demo_esocket) r \<and> rpc r = Done \<and>
     rsess r [] = None \<and> reader_moves q_lib 0 10 newEventHandlers r = []"
proof -
  obtain r where r: "(reader_step q_lib 10 newEventHandlers)\<^sup>*\<^sup>* (new_reader [[] \<mapsto> 7] demo_esocket) r" "rpc r = Done"
    using demo_reader_run [of newEventHandlers] by blast
  from reader_lifecycle [OF r(1), of 0] r show ?thesis
    by (intro exI [of _ r]) (simp add: session_Remove_def demo_esocket_def new_eioSocket_def)
qed

text \<open>
  An upgrade can end the session it upgrades: between closing the paused polling connection
  and installing the new one, a reading goroutine that asks for the next packet may see the
  closed channel instead of the paused one; it then takes the session for closed and removes it.
\<close>
theorem upgrade_may_end_session:
  "\<exists>r \<in> set (reader_moves W now rt h
       (new_reader m (s\<lparr>econn := snd (conn_Close W (PollConn (c\<lparr>paused := True\<rparr>)))\<rparr>))).
     rpc r = Done \<and> rsess r (sid (eio s)) = None \<and> life (eio (rsock r)) = Some 0"
  by (auto simp: reader_moves_def new_reader_def esocket_Read_def Polling_SetReadDeadline_def Polling_Close_def
      go_select_def go_select_default_def esocket_Close_def Socket_Close_def session_Remove_def)

end
