(* ===== verification/Engine_Accept.thy ===== *)
theory Engine_Accept
  imports Engine_Server
begin

text \<open>
  The rest of the engine's sockets and server: header access and \<open>ServeHTTP\<close> of \<open>engine/socket.go\<close>,
  with the names that \<open>net/http\<close> gives headers, and the goroutine of \<open>NewServer\<close> that takes the
  announced sockets and opens them.
\<close>

section \<open>Headers\<close>

definition upper :: "byte \<Rightarrow> byte" where
  "upper b = (if 0x61 \<le> b \<and> b \<le> 0x7A then b - 0x20 else b)"

definition lower :: "byte \<Rightarrow> byte" where
  "lower b = (if 0x41 \<le> b \<and> b \<le> 0x5A then b + 0x20 else b)"

text \<open>The bytes of a header name; a name with any other byte is left as it is.\<close>

definition header_byte :: "byte \<Rightarrow> bool" where
  "header_byte b \<longleftrightarrow>
     0x30 \<le> b \<and> b \<le> 0x39 \<or> 0x41 \<le> b \<and> b \<le> 0x5A \<or> 0x61 \<le> b \<and> b \<le> 0x7A \<or>
     b \<in> set (asc ''!#$%&*+-.^_`|~'') \<or> b = 0x27"

fun canonical :: "bool \<Rightarrow> bytes \<Rightarrow> bytes" where
  "canonical up [] = []"
| "canonical up (b # s) = (if up then upper b else lower b) # canonical (b = 0x2D) s"

definition canonical_key :: "bytes \<Rightarrow> bytes" where
  "canonical_key s = (if list_all header_byte s then canonical True s else s)"

definition Header_Get :: "http_header \<Rightarrow> bytes \<Rightarrow> bytes" where
  "Header_Get h k = (case h (canonical_key k) of Some (v # _) \<Rightarrow> v | _ \<Rightarrow> [])"

definition Header_Set :: "bytes \<Rightarrow> bytes \<Rightarrow> http_header \<Rightarrow> http_header" where
  "Header_Set k v h = h(canonical_key k \<mapsto> [v])"

section \<open>Sockets\<close>

fun conn_map_header :: "(http_header \<Rightarrow> http_header) \<Rightarrow> 'c Conn \<Rightarrow> 'c Conn" where
  "conn_map_header f (PollConn c) = PollConn (c\<lparr>pheader := f (pheader c)\<rparr>)"
| "conn_map_header f (WsConn w) = WsConn (w\<lparr>wheader := f (wheader w)\<rparr>)"

definition Socket_GetHeader :: "bytes \<Rightarrow> 'c esocket \<Rightarrow> bytes" where
  "Socket_GetHeader key s = Header_Get (conn_header (econn s)) key"

definition Socket_SetHeader :: "bytes \<Rightarrow> bytes \<Rightarrow> 'c esocket \<Rightarrow> 'c esocket" where
  "Socket_SetHeader key v s = s\<lparr>econn := conn_map_header (Header_Set key v) (econn s)\<rparr>"

text \<open>Only polling connections are handlers; a websocket has nothing to answer (\<open>None\<close>).\<close>

definition Socket_ServeHTTP ::
  "(goerr \<Rightarrow> string) \<Rightarrow> bool \<Rightarrow> request \<Rightarrow> 'c esocket \<Rightarrow>
     ((response outcome + eioPacket list) option \<times> 'c esocket) list" where
  "Socket_ServeHTTP err_text ctx_done r s =
     (case econn s of
        PollConn c \<Rightarrow>
          map (\<lambda>(x, c'). (Some x, s\<lparr>econn := PollConn c'\<rparr>)) (Polling_ServeHTTP err_text ctx_done r c)
      | WsConn _ \<Rightarrow> [(None, s)])"

section \<open>Header names\<close>

lemma unat_lower: "unat (lower b) = (if 65 \<le> unat b \<and> unat b \<le> 90 then unat b + 32 else unat b)"
  by (simp add: lower_def word_le_nat_alt unat_word_ariths)

lemma unat_upper: "unat (upper b) = (if 97 \<le> unat b \<and> unat b \<le> 122 then unat b - 32 else unat b)"
  by (simp add: upper_def word_le_nat_alt unat_sub)

lemma header_byte_unat:
  "header_byte b \<longleftrightarrow>
     48 \<le> unat b \<and> unat b \<le> 57 \<or> 65 \<le> unat b \<and> unat b \<le> 90 \<or> 97 \<le> unat b \<and> unat b \<le> 122 \<or>
     unat b \<in> {33, 35, 36, 37, 38, 39, 42, 43, 45, 46, 94, 95, 96, 124, 126}"
  by (auto simp: header_byte_def word_le_nat_alt asc_def word_unat_eq_iff)

lemma lower_simps [simp]:
  "upper (lower b) = upper b" "lower (lower b) = lower b" "header_byte (lower b) = header_byte b"
  "lower b = 0x2D \<longleftrightarrow> b = 0x2D"
  unfolding header_byte_unat by (auto simp: word_unat_eq_iff unat_upper unat_lower)

lemma canonical_lower: "canonical u (map lower s) = canonical u s"
  by (induction s arbitrary: u) simp_all

lemma canonical_key_case:
  assumes "map lower k = map lower k'" and "list_all header_byte k"
  shows "canonical_key k = canonical_key k'"
proof -
  have h: "list_all header_byte (map lower s) = list_all header_byte s" for s by (simp add: list_all_iff)
  have "list_all header_byte k'" using assms h by metis
  then show ?thesis using assms canonical_lower [of True k] canonical_lower [of True k'] by (simp add: canonical_key_def)
qed

lemma conn_map_header [simp]: "conn_header (conn_map_header f c) = f (conn_header c)"
  by (cases c) simp_all

text \<open>
  A header that was set is found under its name in upper or lower case, on a polling connection
  and on a websocket, and setting it leaves the headers under other names as they were.
\<close>
theorem header_lookup:
  assumes "list_all header_byte k" and "map lower k' = map lower k"
  shows "Socket_GetHeader k' (Socket_SetHeader k v s) = v \<and>
    (canonical_key k'' \<noteq> canonical_key k \<longrightarrow>
       Socket_GetHeader k'' (Socket_SetHeader k v s) = Socket_GetHeader k'' s)"
  using canonical_key_case [OF assms(2) [symmetric] assms(1)]
  by (simp add: Socket_GetHeader_def Socket_SetHeader_def Header_Get_def Header_Set_def)

text \<open>A name in two spellings.\<close>
theorem header_lookup_witness:
  "Socket_GetHeader (asc ''x-user'') (Socket_SetHeader (asc ''X-USER'') (asc ''ann'') demo_esocket) = asc ''ann''"
  using header_lookup [of "asc ''X-USER''" "asc ''x-user''" "asc ''ann''" demo_esocket "asc ''x''"]
  by (simp add: asc_def header_byte_def lower_def)

section \<open>Opening sockets\<close>

text \<open>
  The goroutine of \<open>NewServer\<close> with its channel of one socket, and whether \<open>Close\<close> was called.
  Histories are the sockets announced by \<open>ServeHTTP\<close>, those taken from the channel, and the
  sockets as their reading goroutines and \<open>onOpen\<close> get them, with the open packet submitted.
\<close>

record 'c accept_sys =
  schan :: "'c esocket list"
  sdone :: bool
  arunning :: bool
  announced :: "'c esocket list"
  taken :: "'c esocket list"
  started :: "'c esocket list"

definition new_accept :: "'c accept_sys" where
  "new_accept = \<lparr>schan = [], sdone = False, arunning = True, announced = [], taken = [], started = []\<rparr>"

definition accept_moves :: "goint \<Rightarrow> goint \<Rightarrow> 'c accept_sys \<Rightarrow> 'c accept_sys list" where
  "accept_moves interval timeout a =
     (if \<not> arunning a then []
      else go_select
        [(sdone a, a\<lparr>arunning := False\<rparr>),
         (schan a \<noteq> [],
          a\<lparr>schan := tl (schan a), taken := taken a @ [hd (schan a)],
            started := started a @ [snd (Server_accept interval timeout (hd (schan a)))]\<rparr>)])"

text \<open>The \<open>select\<close> of \<open>ServeHTTP\<close> with a new socket: whether it announced it.\<close>

definition announce_moves :: "'c esocket \<Rightarrow> 'c accept_sys \<Rightarrow> (bool \<times> 'c accept_sys) list" where
  "announce_moves s a =
     go_select
       [(sdone a, (False, a)),
        (length (schan a) < 1, (True, a\<lparr>schan := schan a @ [s], announced := announced a @ [s]\<rparr>))]"

definition Server_Close :: "'c accept_sys \<Rightarrow> 'c accept_sys" where
  "Server_Close a = a\<lparr>sdone := True\<rparr>"

inductive accept_step :: "goint \<Rightarrow> goint \<Rightarrow> 'c accept_sys \<Rightarrow> 'c accept_sys \<Rightarrow> bool" for interval timeout where
  accepts: "a' \<in> set (accept_moves interval timeout a) \<Longrightarrow> accept_step interval timeout a a'"
| announces: "(b, a') \<in> set (announce_moves s a) \<Longrightarrow> accept_step interval timeout a a'"
| server_closes: "accept_step interval timeout a (Server_Close a)"

inductive_cases accept_stepE: "accept_step interval timeout a a'"

lemmas accept_ops = accept_moves_def announce_moves_def Server_Close_def

interpretation acceptF: fifo "accept_step interval timeout" "\<lambda>a. a = new_accept" announced taken schan
  for interval timeout
proof
  fix a :: "'a accept_sys" assume "a = new_accept"
  then show "announced a = taken a @ schan a" by (simp add: new_accept_def)
next
  fix a a' :: "'a accept_sys" assume "accept_step interval timeout a a'"
  then show "(\<exists>xs. announced a' = announced a @ xs \<and> schan a' = schan a @ xs \<and> taken a' = taken a) \<or>
     (\<exists>xs. schan a = xs @ schan a' \<and> taken a' = taken a @ xs \<and> announced a' = announced a)"
    by (elim accept_stepE) (auto simp: accept_ops go_select_def neq_Nil_conv split: if_splits)
qed

definition accept_inv :: "goint \<Rightarrow> goint \<Rightarrow> 'c accept_sys \<Rightarrow> bool" where
  "accept_inv interval timeout a \<longleftrightarrow>
     length (schan a) \<le> 1 \<and> started a = map (\<lambda>s. snd (Server_accept interval timeout s)) (taken a) \<and>
     (arunning a \<or> sdone a)"

lemma accept_inv_step [inv]:
  "accept_step interval timeout a a' \<Longrightarrow> accept_inv interval timeout a \<Longrightarrow> accept_inv interval timeout a'"
  by (elim accept_stepE) (auto simp: accept_ops accept_inv_def go_select_def split: if_splits)

text \<open>
  C29. Under every interleaving of requests, the accepting goroutine and \<open>Close\<close>, the sockets that
  requests announce are opened in their order and each once, with the open packet submitted
  first, and at most one waits; as long as the server is not closed a waiting socket can be
  opened, and after the goroutine has ended none is.
\<close>
theorem sockets_opened_in_order:
  assumes "(accept_step interval timeout)\<^sup>*\<^sup>* new_accept a"
  shows "announced a = taken a @ schan a \<and> length (schan a) \<le> 1 \<and>
    started a = map (\<lambda>s. snd (Server_accept interval timeout s)) (taken a) \<and>
    (schan a \<noteq> [] \<and> \<not> sdone a \<longrightarrow>
       (\<exists>a'. accept_moves interval timeout a = [a'] \<and> taken a' = announced a \<and> schan a' = [])) \<and>
    (\<not> arunning a \<longrightarrow> sdone a \<and> accept_moves interval timeout a = [])"
proof -
  have i: "accept_inv interval timeout a"
    using assms
  proof (induction rule: rtranclp_induct)
    case base
    then show ?case by (simp add: accept_inv_def new_accept_def)
  qed (rule inv)
  moreover have h: "announced a = taken a @ schan a"
    using acceptF.history [OF refl assms] .
  moreover have "\<exists>a'. accept_moves interval timeout a = [a'] \<and> taken a' = announced a \<and> schan a' = []"
    if "schan a \<noteq> []" "\<not> sdone a"
  proof -
    from that i obtain s where "schan a = [s]" by (cases "schan a") (auto simp: accept_inv_def)
    with that i h show ?thesis by (simp add: accept_moves_def accept_inv_def go_select_def)
  qed
  ultimately show ?thesis by (auto simp: accept_inv_def accept_moves_def)
qed

text \<open>One socket, announced and opened.\<close>
theorem sockets_opened_in_order_witness:
  "\<exists>a. (accept_step 25000000000 60000000000)\<^sup>*\<^sup>* new_accept a \<and> announced a = [demo_esocket] \<and>
     started a = [snd (Server_accept 25000000000 60000000000 demo_esocket)] \<and> schan a = []"
proof -
  let ?a1 = "new_accept\<lparr>schan := [demo_esocket], announced := [demo_esocket]\<rparr>"
  let ?a2 = "?a1\<lparr>schan := [], taken := [demo_esocket],
    started := [snd (Server_accept 25000000000 60000000000 demo_esocket)]\<rparr>"
  have 1: "accept_step 25000000000 60000000000 new_accept ?a1"
    by (rule announces [where s = demo_esocket and b = True]) (simp add: announce_moves_def new_accept_def go_select_def)
  have 2: "accept_step 25000000000 60000000000 ?a1 ?a2"
    by (rule accepts) (simp add: accept_moves_def new_accept_def go_select_def)
  from 1 2 have r: "(accept_step 25000000000 60000000000)\<^sup>*\<^sup>* new_accept ?a2"
    by (meson r_into_rtranclp rtranclp.rtrancl_into_rtrancl)
  from sockets_opened_in_order [OF r] r show ?thesis by (intro exI [of _ ?a2]) (simp add: new_accept_def)
qed

end
