(* ===== verification/Sio_Engine.thy ===== *)
theory Sio_Engine
  imports Sio_Session Engine_Accept
begin

text \<open>
  The socket.io server over the engine: the reading goroutine of a session calls the handlers that
  \<open>NewServer\<close> of \<open>server.go\<close> registered, and these are the operations of \<open>Sio_Run\<close>. The goroutine
  starts before \<open>onOpen\<close> is called, so the calls come before and after it.
\<close>

definition sio_handlers :: eventHandlers where
  "sio_handlers = On EventClose 1 (On EventMessage 0 newEventHandlers)"

definition op_of_call :: "nat \<Rightarrow> nat \<times> byte \<times> bytes \<Rightarrow> server_op" where
  "op_of_call i = (\<lambda>(f, mt, d). if f = 0 then Message i mt d else Closed i)"

lemma packet_calls_sio:
  "packet_calls sio_handlers p =
     (if pktType p = PacketTypeClose then [(1, msgType p, data p)]
      else if pktType p = PacketTypeMessage then [(0, msgType p, data p)]
      else [])"
  by (auto simp: packet_calls_def fire_def sio_handlers_def On_def newEventHandlers_def)

lemma calls_fit:
  assumes "\<forall>p \<in> set ps. length (data p) \<le> max_alloc"
  shows "list_all (op_fits okt) (map (op_of_call i) (concat (map (packet_calls sio_handlers) ps)))"
  using assms by (induction ps) (auto simp: packet_calls_sio op_of_call_def op_fits_def)

lemma server_run_append:
  "server_run P run (ops @ ops') S =
     (case server_run P run ops S of
        Panic \<Rightarrow> Panic
      | Ret None \<Rightarrow> Ret None
      | Ret (Some (S', effs)) \<Rightarrow>
          (case server_run P run ops' S' of
             Panic \<Rightarrow> Panic
           | Ret None \<Rightarrow> Ret None
           | Ret (Some (T, effs')) \<Rightarrow> Ret (Some (T, effs @ effs'))))"
  by (induction ops arbitrary: S) (auto split: outcome.split option.split)

lemma not_open_ignored:
  assumes "sockets S i = None"
  shows "server_run P run (map (op_of_call i) cs) S = Ret (Some (S, []))"
  using assms
  by (induction cs)
     (auto simp: op_of_call_def server_step_def Server_onMessage_def Server_onClose_def)

lemma closed_last:
  assumes "server_run P run (ops @ [Closed i]) S = Ret (Some (T, effs))"
  shows "sockets T i = None"
  using assms unfolding server_run_append
  by (auto simp: server_step_def Server_onClose_def split: outcome.splits option.splits prod.splits)

lemma opened_stays:
  assumes "server_run P run [Opened i e] S = Ret (Some (T, effs))"
  shows "sockets T i \<noteq> None"
  using assms by (auto simp: server_step_def Server_onOpen_def Let_def split: prod.splits)

lemma reader_calls:
  assumes "(reader_step W rt sio_handlers)\<^sup>*\<^sup>* (new_reader m s) r"
  shows "rcalls r = concat (map (packet_calls sio_handlers) (got r)) @
    (if rpc r = Done then [(1, MessageTypeString, [])] else [])"
  using reader_inv_reach [OF assms]
  by (auto simp: reader_inv_def fire_def sio_handlers_def On_def)



end
