(* ===== verification/Engine_Client.thy ===== *)
theory Engine_Client
  imports Engine_Server
begin

text \<open>
  \<open>engine/client.go\<close>: the handshake of \<open>Dial\<close>, the goroutine that sends pings, the goroutine that
  reads, and \<open>Close\<close>. The dialler and the connection it gives are parameters; the goroutines are
  program counters whose steps interleave with those of the caller.
\<close>

section \<open>The handshake\<close>

text \<open>\<open>json.Unmarshal\<close> into \<open>Parameters\<close>; \<open>null\<close> leaves a field as it is, a null element is empty.\<close>

definition set_param :: "bytes \<times> gval \<Rightarrow> Parameters \<Rightarrow> Parameters option" where
  "set_param kv p =
     (let k = fold_key (fst kv); v = snd kv;
          num = (\<lambda>v. case v of GNum l \<Rightarrow> map_option word_of_int (parse_int64 l) | _ \<Rightarrow> None);
          text = (\<lambda>v. case v of GStr s \<Rightarrow> Some s | GNil \<Rightarrow> Some [] | _ \<Rightarrow> None)
      in
      if k = asc ''sid'' then
        (case v of GNil \<Rightarrow> Some p | GStr s \<Rightarrow> Some (p\<lparr>SID := s\<rparr>) | _ \<Rightarrow> None)
      else if k = asc ''upgrades'' then
        (case v of
           GNil \<Rightarrow> Some (p\<lparr>Upgrades := []\<rparr>)
         | GList vs \<Rightarrow> map_option (\<lambda>us. p\<lparr>Upgrades := us\<rparr>) (those (map text vs))
         | _ \<Rightarrow> None)
      else if k = fold_key (asc ''pingInterval'') then
        (if v = GNil then Some p else map_option (\<lambda>n. p\<lparr>PingInterval := n\<rparr>) (num v))
      else if k = fold_key (asc ''pingTimeout'') then
        (if v = GNil then Some p else map_option (\<lambda>n. p\<lparr>PingTimeout := n\<rparr>) (num v))
      else Some p)"

fun set_params :: "(bytes \<times> gval) list \<Rightarrow> Parameters \<Rightarrow> Parameters option" where
  "set_params [] p = Some p"
| "set_params (kv # kvs) p = (case set_param kv p of None \<Rightarrow> None | Some p' \<Rightarrow> set_params kvs p')"

definition parameters_of_json :: "bytes \<Rightarrow> goerr + Parameters" where
  "parameters_of_json s =
     (case json_fields s of
        Inl e \<Rightarrow> Inl e
      | Inr kvs \<Rightarrow>
          (case set_params kvs \<lparr>SID = [], Upgrades = [], PingInterval = 0, PingTimeout = 0\<rparr> of
             None \<Rightarrow> Inl JsonError
           | Some p \<Rightarrow> Inr p))"

text \<open>
  The client: its socket, whether \<open>closeChan\<close> is closed, the interval between pings and the read
  timeout (durations, which wrap like Go's), the two goroutines, and as histories the calls of
  event handlers and the packets read, each with the handlers registered when it was handled.
\<close>

datatype client_pc = ClientCheck | ClientRead | ClientDone

record 'c engine_client =
  csock :: "'c esocket"
  closeChan :: bool
  pingInterval :: goint
  readTimeout :: goint
  pinging :: bool
  cpc :: client_pc
  ccalls :: calls
  cgot :: "(eventHandlers \<times> eioPacket) list"

definition new_engine_client :: "Parameters \<Rightarrow> 'c Conn \<Rightarrow> 'c engine_client" where
  "new_engine_client param c =
     (let interval = PingInterval param * 1000000; timeout = PingTimeout param * 1000000
      in \<lparr>csock = \<lparr>eio = new_eioSocket (Parameters.SID param), econn = c\<rparr>, closeChan = False,
          pingInterval = interval, readTimeout = interval + timeout,
          pinging = True, cpc = ClientCheck, ccalls = [], cgot = []\<rparr>)"

definition Dial ::
  "'c wslib \<Rightarrow> int \<Rightarrow> goerr + 'c Conn \<Rightarrow> (goerr + 'c engine_client) list" where
  "Dial W now dialled =
     (case dialled of
        Inl e \<Rightarrow> [Inl e]
      | Inr c \<Rightarrow> do {
          (r, c1) \<leftarrow> conn_ReadPacket W now c;
          case r of
            Inl e \<Rightarrow> [Inl e]
          | Inr p \<Rightarrow>
              if pktType p \<noteq> PacketTypeOpen then [Inl ErrInvalidPayload]
              else (case parameters_of_json (data p) of
                 Inl e \<Rightarrow> [Inl e]
               | Inr param \<Rightarrow> [Inr (new_engine_client param c1)])
        })"

section \<open>The goroutines\<close>

text \<open>
  The goroutine that pings: its \<open>select\<close> stops it once \<open>closeChan\<close> is closed, or sends a ping when
  the timer fires. The nil argument of \<open>Emit\<close> is marshalled.
\<close>

definition ping_moves :: "bool \<Rightarrow> 'c engine_client \<Rightarrow> 'c engine_client list" where
  "ping_moves timer c =
     (if \<not> pinging c then []
      else go_select
        [(closeChan c, c\<lparr>pinging := False\<rparr>),
         (timer,
          case Socket_Emit EventPing MessageTypeString (ArgJson GNil) (eio (csock c)) of
            (Some _, i) \<Rightarrow> c\<lparr>csock := (csock c)\<lparr>eio := i\<rparr>, pinging := False\<rparr>
          | (None, i) \<Rightarrow> c\<lparr>csock := (csock c)\<lparr>eio := i\<rparr>\<rparr>)])"

text \<open>The goroutine that reads; its deferred call closes the socket.\<close>

definition client_stop :: "'c wslib \<Rightarrow> 'c engine_client \<Rightarrow> 'c engine_client" where
  "client_stop W c = c\<lparr>cpc := ClientDone, csock := snd (esocket_Close W (csock c))\<rparr>"

definition client_moves ::
  "'c wslib \<Rightarrow> int \<Rightarrow> eventHandlers \<Rightarrow> 'c engine_client \<Rightarrow> 'c engine_client list" where
  "client_moves W now h c =
     (case cpc c of
        ClientDone \<Rightarrow> []
      | ClientCheck \<Rightarrow> go_select_default [(closeChan c, client_stop W c)] (c\<lparr>cpc := ClientRead\<rparr>)
      | ClientRead \<Rightarrow> do {
          (x, s) \<leftarrow> esocket_Read W now (sint (readTimeout c)) (csock c);
          case x of
            Inl _ \<Rightarrow> [client_stop W (c\<lparr>csock := s\<rparr>)]
          | Inr p \<Rightarrow>
              (case Client_handle W h p s of
                 (_, s', cs) \<Rightarrow>
                   [c\<lparr>csock := s', cpc := ClientCheck, ccalls := ccalls c @ cs, cgot := cgot c @ [(h, p)]\<rparr>])
        })"

text \<open>\<open>Close\<close> runs once: it closes \<open>closeChan\<close> and the connection, not the socket's emitter.\<close>

definition EngineClient_Close :: "'c wslib \<Rightarrow> 'c engine_client \<Rightarrow> goerr option \<times> 'c engine_client" where
  "EngineClient_Close W c =
     (if closeChan c then (None, c)
      else (case conn_Close W (econn (csock c)) of
        (e, k) \<Rightarrow> (e, c\<lparr>closeChan := True, csock := (csock c)\<lparr>econn := k\<rparr>\<rparr>)))"

text \<open>
  The goroutines, the caller, who may emit, close and register handlers at any time, and the
  peer and the emitter, which use the connection.
\<close>

inductive engine_client_step ::
  "'c wslib \<Rightarrow> 'c engine_client \<times> eventHandlers \<Rightarrow> 'c engine_client \<times> eventHandlers \<Rightarrow> bool" for W where
  reads: "c' \<in> set (client_moves W now h c) \<Longrightarrow> engine_client_step W (c, h) (c', h)"
| pings: "c' \<in> set (ping_moves timer c) \<Longrightarrow> engine_client_step W (c, h) (c', h)"
| emits: "submit p (eio (csock c)) = (e, i) \<Longrightarrow>
    engine_client_step W (c, h) (c\<lparr>csock := (csock c)\<lparr>eio := i\<rparr>\<rparr>, h)"
| closes: "engine_client_step W (c, h) (snd (EngineClient_Close W c), h)"
| conn_changes: "engine_client_step W (c, h) (c\<lparr>csock := (csock c)\<lparr>econn := k\<rparr>\<rparr>, h)"
| registers: "engine_client_step W (c, h) (c, On ev f h)"

section \<open>The handshake of client and server\<close>

lemma fold_keys [simp]:
  "fold_key (asc ''sid'') = asc ''sid''" "fold_key (asc ''upgrades'') = asc ''upgrades''"
  "asc ''sid'' \<noteq> asc ''upgrades''" "fold_key (asc ''pingInterval'') \<noteq> asc ''sid''"
  "fold_key (asc ''pingInterval'') \<noteq> asc ''upgrades''" "fold_key (asc ''pingTimeout'') \<noteq> asc ''sid''"
  "fold_key (asc ''pingTimeout'') \<noteq> asc ''upgrades''"
  "fold_key (asc ''pingTimeout'') \<noteq> fold_key (asc ''pingInterval'')"
  "asc ''upgrades'' \<noteq> asc ''sid''"
  by (simp_all add: asc_def)

lemma parse_int64_goint [simp]: "parse_int64 (FormatInt (sint (w :: goint))) = Some (sint w)"
  using sint_greater_eq [of w] sint_less [of w] by (intro parse_int64_FormatInt) simp_all

lemma params_plain:
  assumes "valid_utf8 (Parameters.SID p)" and "list_all valid_utf8 (Upgrades p)"
  shows "json_plain (Parameters_json p)"
  using assms valid_num_FormatInt
  by (auto simp: Parameters_json_def asc_def list_all_iff)

lemma parameters_roundtrip:
  assumes "valid_utf8 (Parameters.SID p)" and "list_all valid_utf8 (Upgrades p)"
  shows "\<exists>x. json_marshal (Parameters_json p) = Some x \<and> parameters_of_json x = Inr p"
proof -
  obtain kvs where k: "Parameters_json p = GMap kvs" "kvs \<noteq> []"
    "set_params kvs \<lparr>SID = [], Upgrades = [], PingInterval = 0, PingTimeout = 0\<rparr> = Some p"
  proof
    have u: "those (map (\<lambda>v. case v of GStr s \<Rightarrow> Some s | GNil \<Rightarrow> Some [] | _ \<Rightarrow> None) (map GStr us)) = Some us" for us
      by (induction us) simp_all
    show "set_params [(asc ''sid'', GStr (Parameters.SID p)), (asc ''upgrades'', GList (map GStr (Upgrades p))),
           (asc ''pingInterval'', GNum (FormatInt (sint (PingInterval p)))),
           (asc ''pingTimeout'', GNum (FormatInt (sint (PingTimeout p))))]
        \<lparr>SID = [], Upgrades = [], PingInterval = 0, PingTimeout = 0\<rparr> = Some p"
      using u by (simp add: set_param_def Let_def)
  qed (simp_all add: Parameters_json_def)
  from json_fields_marshal [of kvs] params_plain [OF assms] k show ?thesis
    by (auto simp: parameters_of_json_def)
qed

lemma milliseconds:
  assumes "1000000 dvd sint (t :: goint)"
  shows "go_div t 1000000 * 1000000 = t"
proof -
  from assms obtain i where i: "sint t = 1000000 * i" by blast
  have "sint t sdiv 1000000 = i" unfolding i signed_divide_int_def
    by (auto simp: abs_mult sgn_mult sgn_mult_abs)
  then have "go_div t 1000000 = word_of_int i" by (simp add: go_div_def)
  then have "go_div t 1000000 * 1000000 = word_of_int (1000000 * i)" by (simp add: mult.commute)
  also have "\<dots> = word_of_int (sint t)" by (simp only: i)
  finally show ?thesis by simp
qed

text \<open>
  C15. Client and server agree on a new session: the first packet the server sends on it is the
  open packet, and a client that \<open>Dial\<close>s and reads that packet first has the server's session id
  and, for whole milliseconds, its ping interval, with interval and timeout as read timeout.
\<close>
theorem handshake_agrees:
  assumes "life (eio s) = None" and "valid_utf8 (sid (eio s))"
    and "1000000 dvd sint interval" and "1000000 dvd sint timeout"
  shows "\<exists>x s'. Server_accept interval timeout s = (None, s') \<and>
    out (eio s') = out (eio s) @ [\<lparr>msgType = MessageTypeString, pktType = PacketTypeOpen, data = x\<rparr>] \<and>
    (\<forall>W now c c'.
       conn_ReadPacket W now c = [(Inr \<lparr>msgType = MessageTypeString, pktType = PacketTypeOpen, data = x\<rparr>, c')] \<longrightarrow>
       (\<exists>k. Dial W now (Inr c) = [Inr k] \<and> sid (eio (csock k)) = sid (eio s) \<and> econn (csock k) = c' \<and>
          pingInterval k = interval \<and> readTimeout k = interval + timeout))"
proof -
  let ?m = "open_parameters interval timeout (sid (eio s))"
  have "list_all valid_utf8 (Upgrades ?m)" by (simp add: open_parameters_def asc_def)
  with parameters_roundtrip [of ?m] assms(2) obtain x where
    x: "json_marshal (Parameters_json ?m) = Some x" "parameters_of_json x = Inr ?m"
    by (auto simp: open_parameters_def)
  let ?p = "\<lparr>msgType = MessageTypeString, pktType = PacketTypeOpen, data = x\<rparr>"
  have "Server_accept interval timeout s = (None, s\<lparr>eio := (eio s)\<lparr>out := out (eio s) @ [?p]\<rparr>\<rparr>)"
    using assms(1) x(1) by (simp add: Server_accept_def Socket_Emit_def event_packet_def emit_data_def submit_def)
  moreover have "\<exists>k. Dial W now (Inr c) = [Inr k] \<and> sid (eio (csock k)) = sid (eio s) \<and> econn (csock k) = c' \<and>
      pingInterval k = interval \<and> readTimeout k = interval + timeout"
    if "conn_ReadPacket W now c = [(Inr ?p, c')]" for W now and c c' :: "'b Conn"
    using that x(2) milliseconds [OF assms(3)] milliseconds [OF assms(4)]
    by (simp add: Dial_def new_engine_client_def Let_def open_parameters_def new_eioSocket_def)
  ultimately show ?thesis by (intro exI [of _ x] exI conjI) auto
qed

text \<open>The default intervals over a websocket.\<close>
theorem handshake_agrees_witness:
  "\<exists>x s' k. Server_accept 25000000000 60000000000 (\<lparr>eio = new_eioSocket (asc ''a1''), econn = demo_ws\<rparr>) = (None, s') \<and>
     out (eio s') = [\<lparr>msgType = 0, pktType = 0, data = x\<rparr>] \<and>
     Dial q_lib 0 (Inr (WsConn \<lparr>wconn = ([(1, 0x30 # x)], 0, []), wheader = Map.empty\<rparr>)) = [Inr k] \<and>
     sid (eio (csock k)) = asc ''a1'' \<and> pingInterval k = 25000000000 \<and> readTimeout k = 85000000000"
proof -
  let ?s = "\<lparr>eio = new_eioSocket (asc ''a1''), econn = demo_ws\<rparr>"
  have "life (eio ?s) = None" "valid_utf8 (sid (eio ?s))"
    "1000000 dvd sint (25000000000 :: goint)" "1000000 dvd sint (60000000000 :: goint)"
    by (simp_all add: new_eioSocket_def asc_def)
  from handshake_agrees [OF this] obtain x s' where
    s: "Server_accept 25000000000 60000000000 ?s = (None, s')"
      "out (eio s') = out (eio ?s) @ [\<lparr>msgType = MessageTypeString, pktType = PacketTypeOpen, data = x\<rparr>]"
    and d: "\<And>W now (c :: qlink Conn) c'.
       conn_ReadPacket W now c = [(Inr \<lparr>msgType = MessageTypeString, pktType = PacketTypeOpen, data = x\<rparr>, c')] \<Longrightarrow>
       \<exists>k. Dial W now (Inr c) = [Inr k] \<and> sid (eio (csock k)) = sid (eio ?s) \<and> econn (csock k) = c' \<and>
          pingInterval k = 25000000000 \<and> readTimeout k = 25000000000 + 60000000000"
    by blast
  have "conn_ReadPacket q_lib 0 (WsConn \<lparr>wconn = ([(1, 0x30 # x)], 0, []), wheader = Map.empty\<rparr>) =
    [(Inr \<lparr>msgType = MessageTypeString, pktType = PacketTypeOpen, data = x\<rparr>,
      WsConn \<lparr>wconn = ([], 0, []), wheader = Map.empty\<rparr>)]"
    by (simp add: Ws_ReadPacket_def q_lib_def)
  from d [OF this] s show ?thesis by (auto simp: new_eioSocket_def)
qed

section \<open>The life of a client\<close>

definition client_calls :: "eventHandlers \<times> eioPacket \<Rightarrow> calls" where
  "client_calls = (\<lambda>(h, p).
     if pktType p = PacketTypeClose then fire EventClose (msgType p) (data p) h
     else if pktType p = PacketTypeMessage then fire EventMessage (msgType p) (data p) h
     else [])"

lemma Client_handle_calls: "Client_handle W h p s = (e, s', cs) \<Longrightarrow> cs = client_calls (h, p)"
  by (auto simp: Client_handle_def client_calls_def split: if_splits prod.splits)

lemma client_moves_cases:
  assumes "c' \<in> set (client_moves W now h c)"
  obtains (stop) s where "cpc c \<noteq> ClientDone" "c' = client_stop W (c\<lparr>csock := s\<rparr>)"
  | (checked) "cpc c = ClientCheck" "\<not> closeChan c" "c' = c\<lparr>cpc := ClientRead\<rparr>"
  | (handled) p s cs where "cpc c = ClientRead"
      "c' = c\<lparr>csock := s, cpc := ClientCheck, ccalls := ccalls c @ client_calls (h, p), cgot := cgot c @ [(h, p)]\<rparr>"
proof (cases "cpc c")
  case ClientCheck
  with assms stop [of "csock c"] checked show thesis
    by (auto simp: client_moves_def go_select_default_def go_select_def split: if_splits)
next
  case ClientRead
  with assms obtain x s where x: "(x, s) \<in> set (esocket_Read W now (sint (readTimeout c)) (csock c))"
    "c' \<in> set (case x of Inl _ \<Rightarrow> [client_stop W (c\<lparr>csock := s\<rparr>)]
       | Inr p \<Rightarrow> (case Client_handle W h p s of
           (_, s', cs) \<Rightarrow> [c\<lparr>csock := s', cpc := ClientCheck, ccalls := ccalls c @ cs, cgot := cgot c @ [(h, p)]\<rparr>]))"
    by (auto simp: client_moves_def list_monad)
  show thesis
  proof (cases x)
    case (Inl e)
    with x ClientRead stop [of s] show ?thesis by simp
  next
    case (Inr p)
    obtain e s' cs where e: "Client_handle W h p s = (e, s', cs)" by (cases "Client_handle W h p s") auto
    with x(2) Inr ClientRead handled [of p s'] Client_handle_calls [OF e] show ?thesis by simp
  qed
qed (use assms in \<open>simp add: client_moves_def\<close>)

definition client_inv :: "'c engine_client \<Rightarrow> bool" where
  "client_inv c \<longleftrightarrow>
     ccalls c = concat (map client_calls (cgot c)) \<and> (cpc c = ClientDone \<longrightarrow> life (eio (csock c)) = Some 0)"

lemma client_stop_inv: "client_inv (client_stop W c) \<longleftrightarrow> ccalls c = concat (map client_calls (cgot c))"
  using esocket_Close_frame [of W "csock c"]
  by (cases "esocket_Close W (csock c)") (auto simp: client_inv_def client_stop_def)

lemma Emit_life: "Socket_Emit ev mt a s = (e, i) \<Longrightarrow> life s = Some 0 \<Longrightarrow> life i = Some 0"
  by (auto simp: Socket_Emit_def submit_def split: option.splits sum.splits)

lemma client_inv_step:
  assumes "engine_client_step W (c, h) (c', h')" and "client_inv c"
  shows "client_inv c'"
  using assms(1)
proof (cases rule: engine_client_step.cases)
  case (reads now)
  from reads(2) show ?thesis
  proof (cases rule: client_moves_cases)
    case (stop s)
    with assms(2) show ?thesis by (simp add: client_stop_inv) (simp add: client_inv_def)
  qed (use assms(2) in \<open>simp_all add: client_inv_def\<close>)
next
  case (pings timer)
  with assms(2) show ?thesis
    by (auto simp: ping_moves_def go_select_def client_inv_def dest: Emit_life
        split: if_splits prod.splits option.splits)
next
  case (emits p e i)
  with assms(2) show ?thesis by (auto simp: client_inv_def submit_def split: option.splits)
next
  case closes
  with assms(2) show ?thesis by (auto simp: client_inv_def EngineClient_Close_def split: if_splits prod.splits)
next
  case (conn_changes k)
  with assms(2) show ?thesis by (simp add: client_inv_def)
qed (use assms(2) in simp)

lemma Dial_fresh:
  assumes "Inr k \<in> set (Dial W now d)"
  shows "ccalls k = [] \<and> cgot k = [] \<and> cpc k = ClientCheck \<and> \<not> closeChan k"
proof -
  from assms obtain c where c: "d = Inr c" by (auto simp: Dial_def split: sum.splits)
  with assms obtain r c1 where r: "(r, c1) \<in> set (conn_ReadPacket W now c)"
    "Inr k \<in> set (case r of Inl e \<Rightarrow> [Inl e]
       | Inr p \<Rightarrow>
           if pktType p \<noteq> PacketTypeOpen then [Inl ErrInvalidPayload]
           else (case parameters_of_json (data p) of Inl e \<Rightarrow> [Inl e]
             | Inr param \<Rightarrow> [Inr (new_engine_client param c1)]))"
    by (auto simp: Dial_def list_monad)
  then obtain p where p: "r = Inr p" "pktType p = PacketTypeOpen" by (cases r) (auto split: if_splits)
  with r(2) show ?thesis by (cases "parameters_of_json (data p)") (auto simp: new_engine_client_def Let_def)
qed

text \<open>
  C14. The life of a client after \<open>Dial\<close>, whatever its caller, its peer and its two goroutines do in
  any order: handlers are called for exactly the close and message packets read, in their order, by
  the table of handlers of that moment; a reading goroutine that has ended has closed the socket and
  does nothing more; and its end calls no handler: the loss of the connection is not reported.
\<close>
theorem client_lifecycle:
  assumes "Inr k \<in> set (Dial W now d)" and "(engine_client_step W)\<^sup>*\<^sup>* (k, h0) (c, h)"
  shows "ccalls c = concat (map client_calls (cgot c)) \<and>
    (cpc c = ClientDone \<longrightarrow> life (eio (csock c)) = Some 0 \<and> client_moves W t h c = []) \<and>
    (\<forall>c' \<in> set (client_moves W t h c). cpc c' = ClientDone \<longrightarrow> ccalls c' = ccalls c)"
proof -
  have "client_inv k" using Dial_fresh [OF assms(1)] by (simp add: client_inv_def)
  with assms(2) have "client_inv c"
  proof (induction "(c, h)" arbitrary: c h rule: rtranclp_induct)
    case (step s)
    then show ?case using client_inv_step by (cases s) blast
  qed simp
  moreover have "ccalls c' = ccalls c" if "c' \<in> set (client_moves W t h c)" "cpc c' = ClientDone" for c'
    using that(1) that(2) by (cases rule: client_moves_cases) (auto simp: client_stop_def)
  ultimately show ?thesis by (simp add: client_inv_def client_moves_def)
qed

lemma demo_parameters:
  "parameters_of_json (asc ''{}'') = Inr \<lparr>SID = [], Upgrades = [], PingInterval = 0, PingTimeout = 0\<rparr>"
  by code_simp

text \<open>A client that is closed right after its handshake.\<close>
theorem client_lifecycle_witness:
  "\<exists>k c. Dial q_lib 0 (Inr (WsConn \<lparr>wconn = ([(1, asc ''0{}'')], 0, []), wheader = Map.empty\<rparr>)) = [Inr k] \<and>
     (engine_client_step q_lib)\<^sup>*\<^sup>* (k, newEventHandlers) (c, newEventHandlers) \<and>
     cpc c = ClientDone \<and> ccalls c = [] \<and> client_moves q_lib 5 newEventHandlers c = []"
proof -
  let ?w = "WsConn \<lparr>wconn = ([(1, asc ''0{}'')], 0, []), wheader = Map.empty\<rparr> :: qlink Conn"
  have "conn_ReadPacket q_lib 0 ?w =
    [(Inr \<lparr>msgType = MessageTypeString, pktType = PacketTypeOpen, data = asc ''{}''\<rparr>,
      WsConn \<lparr>wconn = ([], 0, []), wheader = Map.empty\<rparr>)]"
    by (simp add: Ws_ReadPacket_def q_lib_def asc_def)
  then obtain k where k: "Dial q_lib 0 (Inr ?w) = [Inr k]" "cpc k = ClientCheck" "cgot k = []" "\<not> closeChan k"
    by (simp add: Dial_def new_engine_client_def Let_def demo_parameters)
  let ?k = "snd (EngineClient_Close q_lib k)" and ?h = newEventHandlers
  have "client_stop q_lib ?k \<in> set (client_moves q_lib 0 ?h ?k)"
    using k by (simp add: client_moves_def EngineClient_Close_def go_select_default_def go_select_def split: prod.splits)
  then have "engine_client_step q_lib (?k, ?h) (client_stop q_lib ?k, ?h)" by (rule reads)
  with closes [of q_lib k ?h] have r: "(engine_client_step q_lib)\<^sup>*\<^sup>* (k, ?h) (client_stop q_lib ?k, ?h)"
    by (meson r_into_rtranclp rtranclp.rtrancl_into_rtrancl)
  from k have d: "Inr k \<in> set (Dial q_lib 0 (Inr ?w))" by simp
  have "cgot (client_stop q_lib ?k) = []"
    using k by (simp add: client_stop_def EngineClient_Close_def split: prod.splits)
  with client_lifecycle [OF d r, of 5] k(1) r show ?thesis
    by (intro exI [of _ k] exI [of _ "client_stop q_lib ?k"]) (simp add: client_stop_def)
qed

end
