(* ===== verification/Engine_Writer.thy ===== *)
theory Engine_Writer
  imports Engine_Server
begin

text \<open>
  The emitter of \<open>Engine_Emitter\<close> over a connection: before each write its goroutine waits at the
  barrier, then sets the deadline and writes, with the errors of both dropped. An upgrade may start
  at any point in between. \<open>wlog\<close> is the history of the writes with their results.
\<close>

section \<open>Writing to the connection\<close>

datatype wphase = AtBarrier | AtDeadline | AtWrite

record 'c writer_sys =
  wem :: emitter
  wphase :: wphase
  wbar :: barrier
  wcon :: "'c Conn"
  wlog :: "(eioPacket \<times> goerr option) list"

definition new_writer :: "nat \<Rightarrow> 'c Conn \<Rightarrow> 'c writer_sys" where
  "new_writer n c = \<lparr>wem = newEmitter n, wphase = AtBarrier, wbar = False, wcon = c, wlog = []\<rparr>"

definition in_hand :: "emitter \<Rightarrow> eioPacket option" where
  "in_hand e = (case pc e of LoopWrite p \<Rightarrow> Some p | FlushWrite p \<Rightarrow> Some p | _ \<Rightarrow> None)"

definition writer_moves :: "'c wslib \<Rightarrow> int \<Rightarrow> int \<Rightarrow> 'c writer_sys \<Rightarrow> 'c writer_sys list" where
  "writer_moves W now writeTimeout w =
     (case in_hand (wem w) of
        None \<Rightarrow> map (\<lambda>e. w\<lparr>wem := e\<rparr>) (loop_moves (wem w))
      | Some p \<Rightarrow>
          (case wphase w of
             AtBarrier \<Rightarrow> map (\<lambda>b. w\<lparr>wbar := b, wphase := AtDeadline\<rparr>) (barrier_Wait (wbar w))
           | AtDeadline \<Rightarrow>
               map (\<lambda>(_, c). w\<lparr>wcon := c, wphase := AtWrite\<rparr>)
                 (conn_SetWriteDeadline W (now + writeTimeout) (wcon w))
           | AtWrite \<Rightarrow> do {
               (r, c) \<leftarrow> conn_WritePacket W now p (wcon w);
               e \<leftarrow> loop_moves (wem w);
               [w\<lparr>wem := e, wphase := AtBarrier, wcon := c, wlog := wlog w @ [(p, r)]\<rparr>]
             }))"

text \<open>
  The goroutine, the callers of \<open>submit\<close> and of \<open>close\<close>, an upgrade that takes and releases the
  barrier, and everything that others do to the connection.
\<close>

inductive writer_step :: "'c wslib \<Rightarrow> int \<Rightarrow> 'c writer_sys \<Rightarrow> 'c writer_sys \<Rightarrow> bool" for W wt where
  w_moves: "w' \<in> set (writer_moves W now wt w) \<Longrightarrow> writer_step W wt w w'"
| w_check: "submit_check p (wem w) = Inr e \<Longrightarrow> writer_step W wt w (w\<lparr>wem := e\<rparr>)"
| w_select: "p \<in> set (subs (wem w)) \<Longrightarrow> (r, e) \<in> set (submit_select p (wem w)) \<Longrightarrow>
    writer_step W wt w (w\<lparr>wem := e\<rparr>)"
| w_close: "writer_step W wt w (w\<lparr>wem := emitter_close (wem w)\<rparr>)"
| upgrade_takes: "b \<in> set (barrier_Pause (wbar w)) \<Longrightarrow> writer_step W wt w (w\<lparr>wbar := b\<rparr>)"
| upgrade_releases: "writer_step W wt w (w\<lparr>wbar := barrier_Resume (wbar w)\<rparr>)"
| others: "writer_step W wt w (w\<lparr>wcon := c\<rparr>)"

text \<open>A packet in hand while an upgrade holds the barrier.\<close>

lemma held_run:
  "\<exists>w. (writer_step W wt)\<^sup>*\<^sup>* (new_writer 8 c) w \<and> in_hand (wem w) = Some zero_packet \<and> wbar w \<and>
     wphase w = AtBarrier \<and> accepted (wem w) = [zero_packet] \<and> wlog w = [] \<and> wcon w = c \<and> queue (wem w) = []"
proof -
  let ?w0 = "new_writer 8 c"
  let ?w1 = "?w0\<lparr>wem := (newEmitter 8)\<lparr>subs := [zero_packet]\<rparr>\<rparr>"
  let ?w2 = "?w0\<lparr>wem := (newEmitter 8)\<lparr>queue := [zero_packet], accepted := [zero_packet]\<rparr>\<rparr>"
  let ?w3 = "?w2\<lparr>wem := (wem ?w2)\<lparr>pc := LoopSelect\<rparr>\<rparr>"
  let ?w4 = "?w2\<lparr>wem := (wem ?w2)\<lparr>queue := [], pc := LoopWrite zero_packet\<rparr>\<rparr>"
  let ?w5 = "?w4\<lparr>wbar := True\<rparr>"
  have 1: "writer_step W wt ?w0 ?w1"
    using w_check [of zero_packet ?w0 "wem ?w1" W wt] by (simp add: submit_check_def new_writer_def newEmitter_def)
  have 2: "writer_step W wt ?w1 ?w2"
    using w_select [of zero_packet ?w1 None "wem ?w2" W wt]
    by (simp add: submit_select_def new_writer_def newEmitter_def go_eval)
  have 3: "writer_step W wt ?w2 ?w3"
    by (rule w_moves [where now = 0])
       (simp add: writer_moves_def in_hand_def loop_moves_def new_writer_def newEmitter_def go_eval)
  have 4: "writer_step W wt ?w3 ?w4"
    by (rule w_moves [where now = 0])
       (simp add: writer_moves_def in_hand_def loop_moves_def new_writer_def newEmitter_def go_eval recv_queue_def)
  have 5: "writer_step W wt ?w4 ?w5"
    using upgrade_takes [of True ?w4 W wt] by (simp add: barrier_Pause_def new_writer_def)
  from 1 2 3 4 5 have "(writer_step W wt)\<^sup>*\<^sup>* ?w0 ?w5"
    by (meson converse_rtranclp_into_rtranclp rtranclp.rtrancl_refl)
  then show ?thesis by (intro exI [of _ ?w5]) (simp add: in_hand_def new_writer_def newEmitter_def)
qed

section \<open>Refinement of the emitter\<close>

lemma in_hand_emitted:
  assumes "in_hand e = Some p" and "e' \<in> set (loop_moves e)"
  shows "emitted e' = emitted e @ [p]"
  using assms by (auto simp: in_hand_def loop_moves_def split: loop_pc.splits)

lemma no_hand_emitted:
  assumes "in_hand e = None" and "e' \<in> set (loop_moves e)"
  shows "emitted e' = emitted e"
  using assms(2,1) by (cases rule: loop_moves_cases) (auto simp: in_hand_def)

lemma submit_emitted:
  "submit_check p e = Inr e' \<Longrightarrow> emitted e' = emitted e \<and> pc e' = pc e"
  "(r, e') \<in> set (submit_select p e) \<Longrightarrow> emitted e' = emitted e \<and> pc e' = pc e"
  by (auto simp: submit_check_def submit_select_def go_select_def Let_def split: if_splits)

lemma writer_moves_emitter:
  assumes "w' \<in> set (writer_moves W now wt w)" and "map fst (wlog w) = emitted (wem w)"
  shows "(wem w' = wem w \<or> emitter_step (wem w) (wem w')) \<and> map fst (wlog w') = emitted (wem w')"
proof (cases "in_hand (wem w)")
  case None
  with assms show ?thesis
    by (auto simp: writer_moves_def no_hand_emitted intro: emitter_step.loop)
next
  case (Some p)
  with assms show ?thesis
    by (cases "wphase w")
       (auto simp: writer_moves_def list_monad in_hand_emitted intro: emitter_step.loop)
qed

lemma writer_step_emitter:
  assumes "writer_step W wt w w'" and "map fst (wlog w) = emitted (wem w)"
  shows "emitter_step\<^sup>*\<^sup>* (wem w) (wem w') \<and> map fst (wlog w') = emitted (wem w')"
  using assms(1)
proof (cases rule: writer_step.cases)
  case (w_moves now)
  from writer_moves_emitter [OF w_moves assms(2)] show ?thesis by auto
next
  case (w_check p e)
  with assms(2) submit_emitted(1) show ?thesis by (auto intro: emitter_step.check)
next
  case (w_select p r e)
  with assms(2) submit_emitted(2) show ?thesis by (auto intro: emitter_step.select)
next
  case w_close
  with assms(2) emitter_step.close [of "wem w"] show ?thesis by (auto simp: emitter_close_def)
qed (use assms(2) in simp_all)

text \<open>
  C17. The emitter over its connection does what the emitter alone does, with upgrades, closes and
  users of the connection interleaved at will: each accepted packet is written exactly once and in
  the order of acceptance, whatever the results of the writes, those not yet written being the one
  in hand and the queued ones, and a goroutine with a packet in hand that is at the barrier waits
  as long as an upgrade holds it.
\<close>
theorem writer_refines_emitter:
  assumes "(writer_step W wt)\<^sup>*\<^sup>* (new_writer n c) w"
  shows "emitter_step\<^sup>*\<^sup>* (newEmitter n) (wem w) \<and>
    accepted (wem w) = map fst (wlog w) @ in_flight (wem w) \<and>
    (wbar w \<and> wphase w = AtBarrier \<and> in_hand (wem w) \<noteq> None \<longrightarrow> writer_moves W now wt w = [])"
proof -
  have "emitter_step\<^sup>*\<^sup>* (newEmitter n) (wem w) \<and> map fst (wlog w) = emitted (wem w)"
    using assms
  proof (induction rule: rtranclp_induct)
    case base
    then show ?case by (simp add: new_writer_def newEmitter_def)
  next
    case (step w w')
    with writer_step_emitter [OF step.hyps(2)] show ?case by auto
  qed
  moreover from this have "accepted (wem w) = emitted (wem w) @ in_flight (wem w)"
    using emitterF.history [of "newEmitter n" "wem w"] by auto
  ultimately show ?thesis by (auto simp: writer_moves_def barrier_Wait_def)
qed

text \<open>A packet that is accepted, and waits for an upgrade.\<close>
theorem writer_refines_emitter_witness:
  "\<exists>w. (writer_step q_lib 10)\<^sup>*\<^sup>* (new_writer 8 demo_ws) w \<and> emitter_step\<^sup>*\<^sup>* (newEmitter 8) (wem w) \<and>
     accepted (wem w) = [zero_packet] \<and> wlog w = [] \<and> writer_moves q_lib 0 10 w = []"
proof -
  from held_run [of q_lib 10 demo_ws] obtain w where
    w: "(writer_step q_lib 10)\<^sup>*\<^sup>* (new_writer 8 demo_ws) w" "in_hand (wem w) = Some zero_packet"
      "wbar w" "wphase w = AtBarrier" "accepted (wem w) = [zero_packet]" "wlog w = []" by blast
  from writer_refines_emitter [OF w(1), of 0] w show ?thesis by (intro exI [of _ w]) simp
qed

section \<open>Upgrades and the goroutine\<close>

text \<open>
  C18. An upgrade that finds a close packet among the packets it has to handle can block for ever:
  \<open>Close\<close> waits for the goroutine, and a goroutine with a packet in hand that has not passed the
  barrier yet waits for it, while the upgrade gives it back only after \<open>Close\<close> returned. Whatever else
  happens, the barrier stays held, the goroutine does not move, and \<open>Close\<close> does not return. (A
  goroutine that has passed the barrier finishes its write.)
\<close>
theorem upgrade_close_deadlock:
  assumes "wbar w" and "wphase w = AtBarrier" and "in_hand (wem w) = Some p"
    and "(\<lambda>w w'. writer_step W wt w w' \<and> (wbar w \<and> \<not> close_returns (wem w) \<longrightarrow> wbar w'))\<^sup>*\<^sup>* w w'"
  shows "wbar w' \<and> in_hand (wem w') = Some p \<and> \<not> close_returns (wem w') \<and> writer_moves W now wt w' = []"
proof -
  have r: "\<not> close_returns e" if "in_hand e = Some p" for e
    using that by (auto simp: in_hand_def close_returns_def)
  from assms(4) have "wbar w' \<and> wphase w' = AtBarrier \<and> in_hand (wem w') = Some p"
  proof (induction rule: rtranclp_induct)
    case base
    then show ?case using assms by simp
  next
    case (step w w')
    then have h: "wbar w'" "wbar w" "wphase w = AtBarrier" "in_hand (wem w) = Some p" using r by auto
    from step.hyps(2) have "writer_step W wt w w'" by simp
    then have "wphase w' = AtBarrier \<and> in_hand (wem w') = Some p"
    proof (cases rule: writer_step.cases)
      case (w_moves now)
      with h show ?thesis by (simp add: writer_moves_def barrier_Wait_def)
    next
      case (w_check q e)
      with h submit_emitted(1) show ?thesis by (simp add: in_hand_def)
    next
      case (w_select q r e)
      with h submit_emitted(2) show ?thesis by (simp add: in_hand_def)
    qed (use h in \<open>simp_all add: in_hand_def emitter_close_def\<close>)
    with h show ?case by simp
  qed
  with r show ?thesis by (auto simp: writer_moves_def barrier_Wait_def)
qed

text \<open>Reached from a new emitter; then \<open>close\<close> is called.\<close>
theorem upgrade_close_deadlock_witness:
  "\<exists>w. (writer_step q_lib 10)\<^sup>*\<^sup>* (new_writer 8 demo_ws) w \<and> closing (wem w) \<and> wbar w \<and>
     \<not> close_returns (wem w) \<and> writer_moves q_lib 0 10 w = []"
proof -
  from held_run [of q_lib 10 demo_ws] obtain w where
    w: "(writer_step q_lib 10)\<^sup>*\<^sup>* (new_writer 8 demo_ws) w" "in_hand (wem w) = Some zero_packet"
      "wbar w" "wphase w = AtBarrier" by blast
  let ?w = "w\<lparr>wem := emitter_close (wem w)\<rparr>"
  have s: "writer_step q_lib 10 w ?w" by (rule w_close)
  with w(3) have "(\<lambda>w w'. writer_step q_lib 10 w w' \<and> (wbar w \<and> \<not> close_returns (wem w) \<longrightarrow> wbar w'))\<^sup>*\<^sup>* w ?w"
    by (intro r_into_rtranclp) simp
  from upgrade_close_deadlock [OF w(3,4,2) this, of 0] w(1) s show ?thesis
    by (intro exI [of _ ?w]) (auto simp: emitter_close_def intro: rtranclp.rtrancl_into_rtrancl)
qed

text \<open>
  C35. An upgrade can lose a packet that \<open>Emit\<close> accepted: when the goroutine has passed the barrier
  before the upgrade takes it and goes on after the upgrade closed the old connection, the write
  fails, its error is dropped, the packet is not among those the upgrade moves to the new
  connection, and the goroutine goes on with the next one.
\<close>
theorem upgrade_drops_packet:
  assumes "in_hand (wem w) = Some p" and "wphase w = AtDeadline" and "wcon w = PollConn c"
    and "conn_Pause (PollConn c) = Ret (None, old)"
    and "w1 \<in> set (writer_moves W now wt (w\<lparr>wcon := snd (conn_Close W old)\<rparr>))"
    and "w2 \<in> set (writer_moves W now' wt w1)"
  shows "wlog w2 = wlog w @ [(p, Some ErrPollingConnClosed)] \<and> fst (conn_FlushOut (wcon w2)) = outq c \<and>
    in_hand (wem w2) = None \<and> in_flight (wem w2) = queue (wem w)"
proof -
  have old: "snd (conn_Close W old) = PollConn (c\<lparr>paused := True, pclosed := True\<rparr>)"
    using assms(4) by (auto simp: Pause_def Polling_Close_def split: if_splits)
  have w1: "w1 = w\<lparr>wcon := PollConn (c\<lparr>paused := True, pclosed := True\<rparr>), wphase := AtWrite\<rparr>"
    using assms(1,2,5) unfolding old
    by (auto simp: writer_moves_def Polling_SetWriteDeadline_def go_select_default_def go_select_def split: if_splits)
  with assms(1,6) obtain e where e: "e \<in> set (loop_moves (wem w))"
    "w2 = w\<lparr>wem := e, wphase := AtBarrier, wcon := PollConn (c\<lparr>paused := True, pclosed := True\<rparr>),
       wlog := wlog w @ [(p, Some ErrPollingConnClosed)]\<rparr>"
    by (auto simp: writer_moves_def list_monad Polling_WritePacket_def)
  have "in_hand e = None \<and> queue e = queue (wem w) \<and> in_flight e = queue e"
    using assms(1) e(1) by (auto simp: in_hand_def loop_moves_def in_flight_def split: loop_pc.splits)
  with e(2) show ?thesis by (simp add: FlushOut_def)
qed

text \<open>The goroutine has one packet in hand and passed the barrier.\<close>
theorem upgrade_drops_packet_witness:
  "\<exists>w w1 w2. accepted (wem w) = [zero_packet] \<and> in_hand (wem w) = Some zero_packet \<and>
     w1 \<in> set (writer_moves q_lib 0 10 (w\<lparr>wcon := snd (conn_Close q_lib (PollConn ((plain_conn 8)\<lparr>paused := True\<rparr>)))\<rparr>)) \<and>
     w2 \<in> set (writer_moves q_lib 5 10 w1) \<and> wlog w2 = [(zero_packet, Some ErrPollingConnClosed)] \<and>
     in_flight (wem w2) = []"
proof -
  let ?e = "(newEmitter 8)\<lparr>accepted := [zero_packet], pc := LoopWrite zero_packet\<rparr>"
  let ?w = "(new_writer 8 (PollConn (plain_conn 8)))\<lparr>wem := ?e, wphase := AtDeadline\<rparr> :: qlink writer_sys"
  let ?old = "PollConn ((plain_conn 8)\<lparr>paused := True\<rparr>) :: qlink Conn"
  let ?c = "PollConn ((plain_conn 8)\<lparr>paused := True, pclosed := True\<rparr>) :: qlink Conn"
  let ?w1 = "?w\<lparr>wcon := ?c, wphase := AtWrite\<rparr>"
  let ?w2 = "?w\<lparr>wem := ?e\<lparr>pc := LoopCheck, emitted := [zero_packet]\<rparr>, wcon := ?c, wphase := AtBarrier,
    wlog := [(zero_packet, Some ErrPollingConnClosed)]\<rparr>"
  have h: "in_hand (wem ?w) = Some zero_packet" "wphase ?w = AtDeadline" "wcon ?w = PollConn (plain_conn 8)"
    "conn_Pause (PollConn (plain_conn 8)) = Ret (None, ?old)"
    by (simp_all add: in_hand_def new_writer_def Pause_def newPollingConn_def)
  have 1: "?w1 \<in> set (writer_moves q_lib 0 10 (?w\<lparr>wcon := snd (conn_Close q_lib ?old)\<rparr>))"
    by (simp add: writer_moves_def in_hand_def new_writer_def Polling_SetWriteDeadline_def Polling_Close_def
        newPollingConn_def go_select_default_def go_select_def)
  have 2: "?w2 \<in> set (writer_moves q_lib 5 10 ?w1)"
    by (simp add: writer_moves_def in_hand_def new_writer_def newEmitter_def loop_moves_def Polling_WritePacket_def
        newPollingConn_def list_monad)
  from upgrade_drops_packet [OF h 1 2] h(1) 1 2 show ?thesis
    by (intro exI [of _ ?w] exI [of _ ?w1] exI [of _ ?w2]) (simp add: new_writer_def newEmitter_def)
qed

end
