(* ===== verification/Go_Query.thy ===== *)
theory Go_Query
  imports Go_Url "HOL-Library.List_Lexorder"
begin

text \<open>
  \<open>net/url\<close> on query strings: escaping, \<open>ParseQuery\<close> and \<open>Values\<close>, which are kept as the list of
  their pairs, so that the values of a key are in order. A pair with a semicolon is dropped, as
  Go does since version 1.17.
\<close>

section \<open>Escaping\<close>

definition upper_hex :: "nat \<Rightarrow> byte" where
  "upper_hex n = of_nat (if n < 10 then 48 + n else 55 + n)"

definition query_escape_byte :: "byte \<Rightarrow> bytes" where
  "query_escape_byte b =
     (if alnum b \<or> b \<in> set (asc ''-_.~'') then [b]
      else if b = 0x20 then [0x2B]
      else [0x25, upper_hex (unat b div 16), upper_hex (unat b mod 16)])"

definition QueryEscape :: "bytes \<Rightarrow> bytes" where
  "QueryEscape s = concat (map query_escape_byte s)"

fun QueryUnescape :: "bytes \<Rightarrow> bytes option" where
  "QueryUnescape [] = Some []"
| "QueryUnescape (b # r) =
     (if b = 0x25 then
        (case r of
           h # l # r' \<Rightarrow>
             (case (unhex h, unhex l) of
                (Some x, Some y) \<Rightarrow> map_option ((#) (of_nat (x * 16 + y))) (QueryUnescape r')
              | _ \<Rightarrow> None)
         | _ \<Rightarrow> None)
      else map_option ((#) (if b = 0x2B then 0x20 else b)) (QueryUnescape r))"

section \<open>Values\<close>

type_synonym url_values = "(bytes \<times> bytes) list"

definition values_of :: "bytes \<Rightarrow> url_values \<Rightarrow> bytes list" where
  "values_of k ps = map snd (filter (\<lambda>p. fst p = k) ps)"

definition Query_Get :: "bytes \<Rightarrow> url_values \<Rightarrow> bytes" where
  "Query_Get k ps = (case values_of k ps of [] \<Rightarrow> [] | v # _ \<Rightarrow> v)"

definition Query_Set :: "bytes \<Rightarrow> bytes \<Rightarrow> url_values \<Rightarrow> url_values" where
  "Query_Set k v ps = filter (\<lambda>p. fst p \<noteq> k) ps @ [(k, v)]"

fun split_on :: "byte \<Rightarrow> bytes \<Rightarrow> bytes list" where
  "split_on c [] = [[]]"
| "split_on c (b # s) =
     (if b = c then [] # split_on c s
      else (case split_on c s of [] \<Rightarrow> [[b]] | p # ps \<Rightarrow> (b # p) # ps))"

definition parse_pair :: "bytes \<Rightarrow> (bytes \<times> bytes) option" where
  "parse_pair s =
     (if s = [] \<or> 0x3B \<in> set s then None
      else (case (QueryUnescape (takeWhile (\<lambda>b. b \<noteq> 0x3D) s),
                  QueryUnescape (drop 1 (dropWhile (\<lambda>b. b \<noteq> 0x3D) s))) of
              (Some k, Some v) \<Rightarrow> Some (k, v)
            | _ \<Rightarrow> None))"

definition ParseQuery :: "bytes \<Rightarrow> url_values" where
  "ParseQuery s = List.map_filter parse_pair (split_on 0x26 s)"

fun join_with :: "byte \<Rightarrow> bytes list \<Rightarrow> bytes" where
  "join_with c [] = []"
| "join_with c [x] = x"
| "join_with c (x # xs) = x @ c # join_with c xs"

definition Query_Encode :: "url_values \<Rightarrow> bytes" where
  "Query_Encode ps =
     join_with 0x26 (map (\<lambda>p. QueryEscape (fst p) @ 0x3D # QueryEscape (snd p)) (sort_key fst ps))"

section \<open>Round trips\<close>

lemma unhex_upper_hex: "n < 16 \<Longrightarrow> unhex (upper_hex n) = Some n"
  by (auto simp: unhex_def upper_hex_def Let_def unat_of_nat)

lemma query_escape_bytes:
  assumes "c \<in> set (query_escape_byte b)"
  shows "c \<noteq> 0x26 \<and> c \<noteq> 0x3B \<and> c \<noteq> 0x3D"
proof -
  have "alnum c \<or> c \<in> set (asc ''-_.~+%'')"
  proof (cases "alnum b \<or> b \<in> set (asc ''-_.~'') \<or> b = 0x20")
    case True
    with assms show ?thesis by (auto simp: query_escape_byte_def asc_def split: if_splits)
  next
    case False
    have "alnum (upper_hex n)" if "n < 16" for n
      using that by (auto simp: alnum_def is_digit_def upper_hex_def word_le_nat_alt unat_of_nat)
    moreover have "unat b < 256" using unsigned_less [of b] by simp
    ultimately have "alnum (upper_hex (unat b div 16))" "alnum (upper_hex (unat b mod 16))"
      by (simp_all add: less_mult_imp_div_less)
    with assms False show ?thesis by (auto simp: query_escape_byte_def asc_def)
  qed
  then show ?thesis by (auto simp: alnum_def is_digit_def asc_def)
qed

lemma QueryUnescape_byte:
  "QueryUnescape (query_escape_byte b @ r) = map_option ((#) b) (QueryUnescape r)"
proof -
  have "unat b < 256" using unsigned_less [of b] by simp
  then have "unat b div 16 < 16" by (simp add: less_mult_imp_div_less)
  moreover have "(of_nat (unat b div 16 * 16 + unat b mod 16) :: byte) = b" by (simp only: div_mult_mod_eq) simp
  ultimately show ?thesis
    by (auto simp: query_escape_byte_def unhex_upper_hex alnum_def is_digit_def asc_def)
qed

lemma QueryUnescape_Escape: "QueryUnescape (QueryEscape s) = Some s"
  by (induction s) (simp_all add: QueryEscape_def QueryUnescape_byte)

lemma QueryEscape_set: "c \<in> set (QueryEscape s) \<Longrightarrow> c \<noteq> 0x26 \<and> c \<noteq> 0x3B \<and> c \<noteq> 0x3D"
  using query_escape_bytes by (auto simp: QueryEscape_def)

lemma parse_pair_escaped: "parse_pair (QueryEscape k @ 0x3D # QueryEscape v) = Some (k, v)"
proof -
  have n: "\<forall>b \<in> set (QueryEscape k). b \<noteq> 0x3D" using QueryEscape_set by blast
  then have t: "takeWhile (\<lambda>b. b \<noteq> 0x3D) (QueryEscape k @ 0x3D # QueryEscape v) = QueryEscape k"
    "dropWhile (\<lambda>b. b \<noteq> 0x3D) (QueryEscape k @ 0x3D # QueryEscape v) = 0x3D # QueryEscape v"
    by (simp_all add: takeWhile_append dropWhile_append)
  have "0x3B \<notin> set (QueryEscape k @ 0x3D # QueryEscape v)" using QueryEscape_set by auto
  with t show ?thesis by (simp add: parse_pair_def QueryUnescape_Escape)
qed

lemma split_on_nonempty: "split_on c s \<noteq> []"
  by (induction s) (auto split: list.splits)

lemma split_on_piece: "c \<notin> set x \<Longrightarrow> split_on c (x @ c # s) = x # split_on c s"
  by (induction x) auto

lemma split_on_last: "c \<notin> set x \<Longrightarrow> split_on c x = [x]"
  by (induction x) auto

lemma split_on_join: "xs \<noteq> [] \<Longrightarrow> \<forall>x \<in> set xs. c \<notin> set x \<Longrightarrow> split_on c (join_with c xs) = xs"
  by (induction c xs rule: join_with.induct) (simp_all add: split_on_last split_on_piece)

lemma ParseQuery_Encode: "ParseQuery (Query_Encode ps) = sort_key fst ps"
proof (cases "sort_key fst ps = []")
  case True
  then show ?thesis by (simp add: ParseQuery_def Query_Encode_def map_filter_simps parse_pair_def)
next
  case False
  let ?e = "\<lambda>p :: bytes \<times> bytes. QueryEscape (fst p) @ 0x3D # QueryEscape (snd p)"
  have "split_on 0x26 (join_with 0x26 (map ?e (sort_key fst ps))) = map ?e (sort_key fst ps)"
    using False QueryEscape_set by (intro split_on_join) auto
  moreover have "List.map_filter parse_pair (map ?e qs) = qs" for qs
    by (induction qs) (simp_all add: map_filter_simps parse_pair_escaped)
  ultimately show ?thesis by (simp add: ParseQuery_def Query_Encode_def)
qed

lemma values_of_Encode: "values_of k (ParseQuery (Query_Encode ps)) = values_of k ps"
  by (simp add: ParseQuery_Encode values_of_def sort_key_stable)

lemma values_of_Set: "values_of k (Query_Set k' v ps) = (if k = k' then [v] else values_of k ps)"
  by (auto simp: values_of_def Query_Set_def filter_empty_conv intro!: arg_cong [where f = "map snd"] filter_cong)

end
