(* ===== verification/Engine_Dial.thy ===== *)
theory Engine_Dial
  imports Engine_Server Go_Query
begin

text \<open>
  \<open>Dial\<close> of the two transports of \<open>engine/transport.go\<close>, and the request it leads to at the server.
  What \<open>url.Parse\<close> gives for the URL is an argument: an error, or the query string and the other
  parts, which go unchanged to the websocket library's dialler, a parameter.
\<close>

abbreviation (input) queryEIO :: bytes where "queryEIO \<equiv> asc ''EIO''"
abbreviation (input) queryTransport :: bytes where "queryTransport \<equiv> asc ''transport''"
abbreviation (input) querySession :: bytes where "querySession \<equiv> asc ''sid''"

definition dial_query :: "bytes \<Rightarrow> bytes" where
  "dial_query raw =
     Query_Encode (Query_Set queryTransport (asc ''websocket'') (Query_Set queryEIO (asc ''3'') (ParseQuery raw)))"

definition websocket_Dial ::
  "('u \<times> bytes \<Rightarrow> http_header \<Rightarrow> goerr + 'c) \<Rightarrow> goerr + 'u \<times> bytes \<Rightarrow> http_header \<Rightarrow> goerr + 'c Conn" where
  "websocket_Dial dialer url header =
     (case url of
        Inl e \<Rightarrow> Inl e
      | Inr (u, raw) \<Rightarrow>
          (case dialer (u, dial_query raw) header of
             Inl e \<Rightarrow> Inl e
           | Inr c \<Rightarrow> Inr (WsConn \<lparr>wconn = c, wheader = cloneHTTPHeader header\<rparr>)))"

definition polling_Dial :: "bytes \<Rightarrow> http_header \<Rightarrow> goerr + 'c Conn" where
  "polling_Dial rawurl header = Inl (Errorf ''not implemented'')"

text \<open>What \<open>ServeHTTP\<close> of the server reads from the query string of a request.\<close>

definition serve_query ::
  "bytes \<Rightarrow> bool \<Rightarrow> bool \<Rightarrow> bool \<Rightarrow> (bytes \<rightharpoonup> bytes) \<Rightarrow> action list list" where
  "serve_query raw acc_ok is_done takes sessions =
     (let q = ParseQuery raw in
      Server_ServeHTTP (Query_Get queryEIO q) (Query_Get queryTransport q) (Query_Get querySession q)
        acc_ok is_done takes sessions)"

text \<open>
  C38. The query that \<open>Dial\<close> sends, whatever query the user's URL has, is one the server takes: it
  reads protocol version and transport as set and every other parameter as in the user's URL. Without
  a session id in the URL the request opens a new websocket session; with the id of a session on
  polling it upgrades that session, and with an unknown id it is refused.
\<close>
theorem dial_request_routed:
  "(\<forall>k. values_of k (ParseQuery (dial_query raw)) =
      (if k = queryTransport then [asc ''websocket''] else if k = queryEIO then [asc ''3'']
       else values_of k (ParseQuery raw))) \<and>
    serve_query (dial_query raw) True False True sessions =
      (case Query_Get querySession (ParseQuery raw) of
         [] \<Rightarrow> [[Create_Session (asc ''websocket''), Announce, Serve None]]
       | i # is \<Rightarrow>
           (case sessions (i # is) of
              None \<Rightarrow> [[Http_Error ''invalid session'' 400]]
            | Some t \<Rightarrow>
                if t = asc ''websocket'' then [[Serve (Some (i # is))]]
                else [[Upgrade (i # is) (asc ''websocket''), Serve (Some (i # is))]]))"
proof -
  have v: "values_of k (ParseQuery (dial_query raw)) =
      (if k = queryTransport then [asc ''websocket''] else if k = queryEIO then [asc ''3'']
       else values_of k (ParseQuery raw))" for k
    by (simp add: dial_query_def values_of_Encode values_of_Set)
  have n: "querySession \<noteq> queryTransport" "querySession \<noteq> queryEIO" "queryEIO \<noteq> queryTransport"
    by (simp_all add: asc_def)
  have g: "Query_Get queryEIO (ParseQuery (dial_query raw)) = asc ''3''"
    "Query_Get queryTransport (ParseQuery (dial_query raw)) = asc ''websocket''"
    "Query_Get querySession (ParseQuery (dial_query raw)) = Query_Get querySession (ParseQuery raw)"
    unfolding Query_Get_def v using n by simp_all
  have "serve_query (dial_query raw) True False True sessions =
      (case Query_Get querySession (ParseQuery raw) of
         [] \<Rightarrow> [[Create_Session (asc ''websocket''), Announce, Serve None]]
       | i # is \<Rightarrow>
           (case sessions (i # is) of
              None \<Rightarrow> [[Http_Error ''invalid session'' 400]]
            | Some t \<Rightarrow>
                if t = asc ''websocket'' then [[Serve (Some (i # is))]]
                else [[Upgrade (i # is) (asc ''websocket''), Serve (Some (i # is))]]))"
    unfolding serve_query_def Let_def g
    by (auto simp: Server_ServeHTTP_def getTransport_def go_select_def split: list.split option.split)
  with v show ?thesis by blast
qed

end
