(* ===== verification/Spec2Isabelle.thy ===== *)
theory Spec2Isabelle
  imports Sio_Msgpack Sio_Engine Engine_Client Engine_Writer Engine_Dial
begin

text \<open>
  \<^bold>\<open>A verification library for zyxar/socketio\<close>, a Go implementation of engine.io 3 and
  socket.io 2 (server and client).

  \<^bold>\<open>The program.\<close> It has two layers. The package \<open>engine\<close> moves packets between two peers:
  a payload codec for HTTP bodies (\<open>engine/payload.go\<close>), polling and websocket connections
  (\<open>engine/polling.go\<close>, \<open>engine/websocket.go\<close>), an emitter goroutine that serialises the writes
  of a socket (\<open>engine/emitter.go\<close>), the socket and its table of event handlers
  (\<open>engine/socket.go\<close>, \<open>engine/handle.go\<close>), sessions, a server that answers pings, routes
  requests and upgrades a session from polling to websocket (\<open>engine/server.go\<close>), and a client
  (\<open>engine/client.go\<close>). The package
  at the root puts socket.io on top: packets with namespaces, ack ids and attachments
  (\<open>packet.go\<close>, \<open>parser_default.go\<close>, \<open>parser_msgp.go\<close>), callbacks called by reflection (\<open>callback.go\<close>), namespaces
  and pending acks (\<open>handle.go\<close>), the connection (\<open>socket.go\<close>), and what server and client do
  with each packet (\<open>server.go\<close>, \<open>client.go\<close>). A message goes from \<open>emit\<close> through the encoder,
  \<open>Socket_Emit\<close>, the emitter and a connection to the peer's \<open>Server_handle\<close>, whose message
  handler feeds the decoder; a packet that the decoder completes goes to \<open>process\<close>.

  \<^bold>\<open>Conventions.\<close> Bytes and Go's \<open>int\<close> and \<open>uint64\<close> are words of their width. An error that the
  code returns is a value of \<open>goerr\<close>, a panic is the outcome \<open>Panic\<close>, and a channel operation
  that blocks for ever is \<open>None\<close> (decoder) or an empty list of outcomes (\<open>select\<close>). Mutable
  structures are records that each operation returns updated. Where goroutines meet, the model is
  a step relation whose steps are the communication points of the source, and histories (such as
  \<open>accepted\<close> and \<open>emitted\<close>) record what was promised and what was done.

  \<^bold>\<open>Theories.\<close>
    \<^item> \<open>Prelude\<close>: machine types, errors, outcomes, \<open>select\<close>, decimal numbers, the lemma collections
      \<open>codec\<close>, \<open>inv\<close> and others; \<open>Fifo\<close>: the contract \<open>fifo\<close> of channel-like components.
    \<^item> \<open>Go_IO\<close>, \<open>Go_Base64\<close>, \<open>Go_Json\<close>, \<open>Go_Regexp\<close>, \<open>Go_Url\<close>: the parts of Go's standard library
      that the source uses. \<open>Go_Json\<close> ends in a round trip of \<open>Marshal\<close> and \<open>Unmarshal\<close>,
      \<open>Go_Base64\<close> in one of the encoder and the first read of the streaming decoder.
    \<^item> \<open>Engine_Protocol\<close>, \<open>Engine_Payload\<close> (\<open>engine/protocol.go\<close>, \<open>engine/payload.go\<close>): both framings.
      The locale \<open>framing\<close> states what the reading loop needs of a packet codec and is interpreted
      on both (\<open>textF\<close>, \<open>xhr2F\<close>). Shown: payload round trips over readers that split the stream in
      any way the code tolerates, the byte counts of writers that fail part way, and the inputs on
      which the reader panics or misreads.
    \<^item> \<open>Engine_Emitter\<close> (\<open>engine/emitter.go\<close>): the goroutine as a program counter, callers of \<open>submit\<close>
      and of \<open>close\<close> as further steps. Shown: accepted packets are written in order, close
      terminates and flushes, callers do not get stuck; a \<open>submit\<close> that races with \<open>close\<close> can
      lose its packet.
    \<^item> \<open>Engine_Socket\<close> (\<open>engine/socket.go\<close>, \<open>engine/handle.go\<close>): \<open>Emit\<close>, \<open>Send\<close>, \<open>Close\<close> and handlers.
      The layers above see the emitter as a list of accepted packets with a remaining life; the
      locale \<open>sink\<close> is the contract of that view, and its interpretations \<open>emitterS\<close> and \<open>socketS\<close>
      show that the interleaved emitter and the sequential view both meet it.
    \<^item> \<open>Engine_Polling\<close> (\<open>engine/polling.go\<close>): each \<open>select\<close> with its possible outcomes, the GET and
      POST handlers, and the system of their interleavings, where \<open>fifo\<close> is interpreted once for
      each direction (\<open>inF\<close>, \<open>outF\<close>).
    \<^item> \<open>Engine_Websocket\<close> (\<open>engine/websocket.go\<close>, the interface \<open>Conn\<close> of \<open>engine/transport.go\<close>): packets
      as websocket messages over the library as a record of operations, and the operations of a
      connection of either kind. Shown: a packet written is the packet read.
    \<^item> \<open>Engine_Session\<close> (\<open>engine/session.go\<close>): session ids and the table of sessions; ids are injective.
    \<^item> \<open>Engine_Server\<close> (\<open>engine/server.go\<close>, \<open>engine/barrier.go\<close>, \<open>Accept\<close> of \<open>engine/transport.go\<close>):
      sockets with their connection, both packet handlers, the barrier, the reading goroutine of a
      session, \<open>upgrade\<close>, new sessions and \<open>ServeHTTP\<close>. An operation of a connection gives the list of
      its outcomes, and \<open>upgrade\<close> is composed in the list monad. Shown: an upgrade either moves
      everything or changes nothing, pings are answered, the life of the reading goroutine under
      interleaved emits, closes and upgrades; and two weaknesses of upgrades.
    \<^item> \<open>Engine_Accept\<close> (\<open>engine/socket.go\<close>, \<open>engine/server.go\<close>): header access, \<open>ServeHTTP\<close> of a socket,
      and the accepting goroutine, a further interpretation of \<open>fifo\<close> (\<open>acceptF\<close>).
    \<^item> \<open>Engine_Writer\<close> (\<open>engine/emitter.go\<close>): the emitter with the barrier and its connection. Shown: it
      refines \<open>Engine_Emitter\<close>; an upgrade can deadlock with it or make it lose a packet.
    \<^item> \<open>Engine_Client\<close> (\<open>engine/client.go\<close>): the handshake and the two goroutines. Shown: client and
      server agree on the parameters of a session, and the life of a client.
    \<^item> \<open>Go_Query\<close>, \<open>Engine_Dial\<close> (\<open>Dial\<close> of \<open>engine/transport.go\<close>): query strings, and how the server
      routes the request that \<open>Dial\<close> makes.
    \<^item> \<open>Sio_Protocol\<close>, \<open>Parser_Default\<close>, \<open>Parser_Wire\<close> (\<open>protocol.go\<close>, \<open>packet.go\<close>,
      \<open>parser_default.go\<close>): encoder, decoder and \<open>ParseData\<close>; then what arrives at the other end:
      delivery of events, acks and control packets, and the decoder's behaviour on every sequence
      of messages.
    \<^item> \<open>Packet_Msgp\<close>, \<open>Parser_Msgp\<close>, \<open>Msgp_Codec\<close>, \<open>Msgp_Wire\<close> (\<open>packet.go\<close>, \<open>parser_msgp.go\<close>): the
      msgpack methods of a packet on byte slices and streams, and the parser, over the library as a
      record \<open>msgp\<close>; \<open>msgp_ok\<close> states the laws of the library that delivery needs, and \<open>mp\<close> is a codec
      that has them. Shown: delivery of events and acks, the types of decoded arguments for any
      input, agreement of the methods on streams and slices, and the parameter types for which
      decoding cannot panic.
    \<^item> \<open>Sio_Handle\<close> (\<open>callback.go\<close>, \<open>handle.go\<close>): callbacks, \<open>UnmarshalArgs\<close>, namespaces and the ack
      table. \<open>onAck\<close> and \<open>fireAck\<close> are split at their critical sections, which are the steps of a
      system of goroutines that use one table. The locale \<open>one_shot_table\<close> holds the at-most-once
      argument, with the steps it does not see; \<open>acks\<close> interprets it on that system, a fire taking
      effect when it finds its callback.
    \<^item> \<open>Sio_Socket\<close>, \<open>Sio_Server\<close> (\<open>parser.go\<close>, \<open>socket.go\<close>, \<open>server.go\<close>, \<open>client.go\<close>): the parser interface
      as a record, the connection, and both sides' processing.
    \<^item> \<open>Sio_Run\<close>, \<open>Sio_Session\<close>, \<open>Sio_Msgpack\<close>, \<open>Sio_Engine\<close>: the theorems that span them. The locale
      \<open>total_decoder\<close> is what the message handlers need of a parser; \<open>default_decoder\<close> and
      \<open>msgpack_decoder\<close> interpret it. Shown: a request with its reply from end to end, survival of the
      server under every sequence of events with either parser, and the message that makes a handler
      panic with msgpack when its parameter types allow it; replies to unknown namespaces, the
      effects of a close, an event over msgpack, and the handlers of the server driven by the
      engine's reading goroutine.

  \<^bold>\<open>Bounds and fuel.\<close> The recursive descent of \<open>json.Unmarshal\<close> has fuel of twice the length of
  the text plus two: each level of nesting consumes a byte. Every other loop is structural or has
  a termination proof. A slice of more than \<open>max_alloc\<close> bytes (\<open>2 ^ 48\<close>, the runtime's limit on
  64-bit platforms) panics in \<open>make\<close>; messages are assumed to be no longer than that. After
  \<open>close\<close> the emitter exits within \<open>4 * n + 3\<close> moves, where \<open>n\<close> is the number of queued packets.
  The capacity of each channel is an argument of its constructor.

  \<^bold>\<open>Parameters.\<close> User code is \<open>run\<close>, which gives the results of a function on its arguments; the
  decoding of a JSON value into a user's type is \<open>into\<close> and \<open>zero\<close>, and \<open>UnmarshalBinary\<close> of
  \<open>time.Time\<close> and of the user's types is \<open>unbin\<close>; the websocket library is a \<open>wslib\<close>,
  the msgpack library a \<open>msgp\<close> with its streams \<open>msgp_reader\<close> and \<open>msgp_writer\<close>; the texts of errors
  are \<open>err_text\<close>; the clock, the random bytes of a session id and what \<open>url.Parse\<close> and
  \<open>mime.ParseMediaType\<close> give are arguments.

  \<^bold>\<open>Not modelled.\<close> \<open>Msgsize\<close>, which only sizes a buffer; accessors of addresses and ids, and the
  interface declarations; the memory for lengths that a msgpack message declares, which is taken
  to be there; nil pointers inside the values of user code; the order in which waiters get a lock.
  \<open>upgrade\<close> is one function, and \<open>Engine_Server\<close> and \<open>Engine_Writer\<close> show what its interleaving with
  the reading and the emitter goroutine adds. The rounding of JSON numbers to float64 is left out: a number keeps its
  literal. Mutexes show in the atomicity of the steps; a handler that calls back into a structure
  whose lock is held deadlocks in the code and not here.

  \<^bold>\<open>Plan.\<close> Next: one system of a client and a server with the link between them, composed of the
  goroutines that are modelled apart; the locks of a socket as steps, for handlers that call back;
  a reference grammar for the wire format of \<open>parser_default.go\<close>.
\<close>

end
